theory Spec2Isabelle
  imports Complex_Main "HOL-Library.Sublist"
begin

section \<open>Python strings\<close>

text \<open>
  A Python \<open>str\<close> is modelled as a \<open>string\<close>: every character is the code point it
  carries, restricted to the code points below 256.  The string methods the scraper calls
  (\<open>in\<close>, \<open>find\<close>, slicing, \<open>lower\<close>, \<open>strip\<close>, \<open>split\<close>, \<open>replace\<close>) are written
  out below with the behaviour CPython has on that range.
\<close>

text \<open>\<open>sub in s\<close>: \<open>sub\<close> occurs as a contiguous block of \<open>s\<close>.\<close>

primrec py_in :: "string \<Rightarrow> string \<Rightarrow> bool" where
  "py_in sub [] = (sub = [])"
| "py_in sub (c # cs) = (prefix sub (c # cs) \<or> py_in sub cs)"

text \<open>Offset of the first occurrence of \<open>sub\<close> in a string, if there is one.\<close>

primrec find_first :: "string \<Rightarrow> string \<Rightarrow> nat option" where
  "find_first sub [] = (if sub = [] then Some 0 else None)"
| "find_first sub (c # cs) =
     (if prefix sub (c # cs) then Some 0 else map_option Suc (find_first sub cs))"

text \<open>
  \<open>s.find(sub, start)\<close>: the lowest index at or after \<open>start\<close> where \<open>sub\<close> occurs, \<open>-1\<close>
  when there is none.  A negative \<open>start\<close> counts from the end and is clamped at 0; a
  \<open>start\<close> beyond the end finds nothing.  The method never raises on a \<open>str\<close>.
\<close>

definition py_find :: "string \<Rightarrow> string \<Rightarrow> int \<Rightarrow> int" where
  "py_find s sub start =
     (let n = int (length s);
          b = (if start < 0 then max 0 (n + start) else start)
      in if n < b then - 1
         else (case find_first sub (drop (nat b) s) of
                 None \<Rightarrow> - 1
               | Some i \<Rightarrow> b + int i))"

text \<open>A slice bound, as Python clamps it into \<open>0..len\<close>.\<close>

definition slice_bound :: "nat \<Rightarrow> int \<Rightarrow> nat" where
  "slice_bound n i = (if i < 0 then nat (max 0 (int n + i)) else min n (nat i))"

text \<open>\<open>s[i:]\<close> and \<open>s[i:j]\<close>.\<close>

definition slice_from :: "string \<Rightarrow> int \<Rightarrow> string" where
  "slice_from s i = drop (slice_bound (length s) i) s"

definition slice :: "string \<Rightarrow> int \<Rightarrow> int \<Rightarrow> string" where
  "slice s i j =
     (let a = slice_bound (length s) i; b = slice_bound (length s) j
      in take (b - a) (drop a s))"

text \<open>
  Upper-case letters below code point 256: \<open>A\<close>..\<open>Z\<close> and the Latin-1 capitals
  \<open>0xC0\<close>..\<open>0xDE\<close> without the multiplication sign \<open>0xD7\<close>.  Their lower-case partner is
  32 code points higher, which is the same character with bit 5 set.
\<close>

definition isupper :: "char \<Rightarrow> bool" where
  "isupper c =
     (let n = (of_char c :: nat)
      in (65 \<le> n \<and> n \<le> 90) \<or> (192 \<le> n \<and> n \<le> 222 \<and> n \<noteq> 215))"

definition lower_char :: "char \<Rightarrow> char" where
  "lower_char c =
     (if isupper c
      then (case c of Char b0 b1 b2 b3 b4 b5 b6 b7 \<Rightarrow> Char b0 b1 b2 b3 b4 True b6 b7)
      else c)"

definition lower :: "string \<Rightarrow> string" where
  "lower s = map lower_char s"

text \<open>
  \<open>str.isspace\<close> below code point 256; the same set is what \<open>strip()\<close>, \<open>split()\<close> and the
  regular expression class \<open>\s\<close> use.
\<close>

definition isspace :: "char \<Rightarrow> bool" where
  "isspace c = (of_char c \<in> {9, 10, 11, 12, 13, 28, 29, 30, 31, 32, 133, 160 :: nat})"

text \<open>The regular expression class \<open>\d\<close> below code point 256: the ten ASCII digits.\<close>

definition isdigit :: "char \<Rightarrow> bool" where
  "isdigit c = (let n = (of_char c :: nat) in 48 \<le> n \<and> n \<le> 57)"

definition strip :: "string \<Rightarrow> string" where
  "strip s = rev (dropWhile isspace (rev (dropWhile isspace s)))"

text \<open>
  \<open>s.split()\<close> without arguments: the maximal runs of non-space characters, in order.
  \<open>cur\<close> is the word being collected.
\<close>

primrec split_acc :: "string \<Rightarrow> string \<Rightarrow> string list" where
  "split_acc cur [] = (if cur = [] then [] else [cur])"
| "split_acc cur (c # cs) =
     (if isspace c
      then (if cur = [] then split_acc [] cs else cur # split_acc [] cs)
      else split_acc (cur @ [c]) cs)"

definition split :: "string \<Rightarrow> string list" where
  "split s = split_acc [] s"

text \<open>
  \<open>s.replace(old, new)\<close>: every non-overlapping occurrence of \<open>old\<close>, taken from the
  left, becomes \<open>new\<close>.  With an empty \<open>old\<close> Python puts \<open>new\<close> around every character.
\<close>

fun py_replace :: "string \<Rightarrow> string \<Rightarrow> string \<Rightarrow> string" where
  "py_replace [] new s = new @ concat (map (\<lambda>c. c # new) s)"
| "py_replace (a # as) new [] = []"
| "py_replace (a # as) new (c # cs) =
     (if prefix (a # as) (c # cs)
      then new @ py_replace (a # as) new (drop (length as) cs)
      else c # py_replace (a # as) new cs)"

section \<open>Job identifier\<close>

text \<open>
  \<open>SeekScraper.extract_job_id\<close> (identical in v3, v4 and v7).  The body sits in a
  \<open>try\<close> whose handler returns \<open>"Job ID not found"\<close>; \<open>str.find\<close> and slicing raise
  nothing on a \<open>str\<close>, so the handler is never entered and has no branch here.
\<close>

definition extract_job_id :: "string \<Rightarrow> string" where
  "extract_job_id url =
     (let start_index = py_find url ''/job/'' 0 + 5;
          end_index = py_find url ''?'' start_index
      in if end_index = - 1 then slice_from url start_index
         else slice url start_index end_index)"

section \<open>Job type\<close>

text \<open>\<open>SeekScraper.categorize_job_type\<close> (v7), the chain of \<open>if\<close> statements as written.\<close>

definition categorize_job_type :: "string \<Rightarrow> string" where
  "categorize_job_type job_title =
     (let job_title_lower = lower job_title
      in if py_in ''data analyst'' job_title_lower then ''Data Analyst''
         else if py_in ''data engineer'' job_title_lower then ''Data Engineer''
         else if py_in ''engineer'' job_title_lower then ''Data Engineer''
         else if py_in ''business analyst'' job_title_lower then ''Business Analyst''
         else if py_in ''analytics analyst'' job_title_lower then ''Analytcis Engineer''
         else if py_in ''data scientist'' job_title_lower then ''Data Scientist''
         else if py_in ''report developer'' job_title_lower then ''Report Developer''
         else if py_in ''solutions architect'' job_title_lower then ''Solutions Architect''
         else ''unknown'')"

text \<open>
  The specification's reading of it: an ordered table of keyword and category pairs, and
  the category of the first pair whose keyword occurs in the title.
\<close>

definition job_type_rules :: "(string \<times> string) list" where
  "job_type_rules =
     [(''data analyst'', ''Data Analyst''),
      (''data engineer'', ''Data Engineer''),
      (''engineer'', ''Data Engineer''),
      (''business analyst'', ''Business Analyst''),
      (''analytics analyst'', ''Analytcis Engineer''),
      (''data scientist'', ''Data Scientist''),
      (''report developer'', ''Report Developer''),
      (''solutions architect'', ''Solutions Architect'')]"

primrec first_rule :: "(string \<times> string) list \<Rightarrow> string \<Rightarrow> string" where
  "first_rule [] title = ''unknown''"
| "first_rule (r # rs) title = (if py_in (fst r) title then snd r else first_rule rs title)"

section \<open>Posting age\<close>

text \<open>
  The ages are Python floats: IEEE 754 doubles.  A finite double is the rational number
  it stands for, and \<open>float('inf')\<close> is a value of its own; no not-a-number and no
  negative value arises in the code below.
\<close>

datatype pyfloat = Finite rat | Infinity

fun float_lt :: "pyfloat \<Rightarrow> pyfloat \<Rightarrow> bool" where
  "float_lt (Finite a) (Finite b) = (a < b)"
| "float_lt (Finite a) Infinity = True"
| "float_lt Infinity b = False"

fun float_le :: "pyfloat \<Rightarrow> pyfloat \<Rightarrow> bool" where
  "float_le (Finite a) (Finite b) = (a \<le> b)"
| "float_le a Infinity = True"
| "float_le Infinity (Finite b) = False"

text \<open>Rounding to the nearest integer, a tie going to the even one.\<close>

definition round_half_even :: "rat \<Rightarrow> int" where
  "round_half_even x =
     (let f = \<lfloor>x\<rfloor>; d = x - of_int f
      in if d < 1 / 2 then f else if 1 / 2 < d then f + 1 else if even f then f else f + 1)"

text \<open>\<open>int.bit_length\<close>: the number of binary digits of a positive integer.\<close>

function bit_length :: "int \<Rightarrow> int" where
  "bit_length n = (if n \<le> 0 then 0 else 1 + bit_length (n div 2))"
  by pat_completeness auto
termination
  by (relation "measure nat") auto

declare bit_length.simps [simp del]

text \<open>
  The binary exponent of a positive rational \<open>x\<close>: the \<open>e\<close> with \<open>2^e \<le> x < 2^(e+1)\<close>.  The
  difference of the bit lengths of numerator and denominator is this \<open>e\<close> or one more.
\<close>

definition binary_exponent :: "rat \<Rightarrow> int" where
  "binary_exponent x =
     (let k = bit_length (fst (quotient_of x)) - bit_length (snd (quotient_of x))
      in if 2 powi k \<le> x then k else k - 1)"

text \<open>
  A double has 53 significant binary digits and its exponent is at least \<open>-1022\<close>: the
  doubles near \<open>x\<close> are the multiples of \<open>2^q\<close> where \<open>q\<close> is the exponent of \<open>x\<close>, not
  below \<open>-1022\<close>, less 52.  The significand is the multiple chosen: the nearest one, a tie
  going to the even one.
\<close>

definition quantum_exponent :: "rat \<Rightarrow> int" where
  "quantum_exponent x = max (binary_exponent x) (- 1022) - 52"

definition significand :: "rat \<Rightarrow> int" where
  "significand x = round_half_even (x / 2 powi quantum_exponent x)"

definition rounded :: "rat \<Rightarrow> rat" where
  "rounded x = of_int (significand x) * 2 powi quantum_exponent x"

text \<open>
  The double nearest to a non-negative rational, as \<open>float(str)\<close> and the division of
  doubles compute it.  The largest double is \<open>(2^53 - 1) * 2^971\<close>; a value that rounds to
  \<open>2^1024\<close> or more becomes infinity, which is the test on exponent and significand
  below.
\<close>

definition round_double :: "rat \<Rightarrow> pyfloat" where
  "round_double x =
     (if x \<le> 0 then Finite 0
      else if 1024 \<le> binary_exponent x \<or> (binary_exponent x = 1023 \<and> significand x = 2 ^ 53)
      then Infinity
      else Finite (of_int (significand x) * 2 powi quantum_exponent x))"

text \<open>\<open>a / d\<close> for a double \<open>a\<close> and a positive integer \<open>d\<close> that is itself a double.\<close>

fun float_div :: "pyfloat \<Rightarrow> rat \<Rightarrow> pyfloat" where
  "float_div (Finite a) d = round_double (a / d)"
| "float_div Infinity d = Infinity"

definition digit_value :: "char \<Rightarrow> nat" where
  "digit_value c = of_char c - 48"

definition nat_of_digits :: "string \<Rightarrow> nat" where
  "nat_of_digits ds = foldl (\<lambda>a c. 10 * a + digit_value c) 0 ds"

text \<open>
  \<open>re.match(r'(\d+)\s*([mhd])', s)\<close>: the longest run of digits at the start, which must
  not be empty, then any white space, then one of the three unit letters.  Giving back
  digits or white space never helps the match, since the character that follows them
  would again be a digit or a space.  The result is the pair of groups.
\<close>

definition re_match_time :: "string \<Rightarrow> (string \<times> char) option" where
  "re_match_time s =
     (let ds = takeWhile isdigit s;
          r = dropWhile isspace (dropWhile isdigit s)
      in if ds = [] then None
         else (case r of
                 [] \<Rightarrow> None
               | u # rest \<Rightarrow> if u \<in> set ''mhd'' then Some (ds, u) else None))"

text \<open>The local \<open>cleaned_posted_time\<close> of \<open>_convert_to_days\<close>.\<close>

definition cleaned_posted_time :: "string \<Rightarrow> string" where
  "cleaned_posted_time posting_time = strip (py_replace ''posted'' [] (lower posting_time))"

text \<open>
  \<open>SeekScraper._convert_to_days\<close> (identical in v3, v4 and v7).  Nothing in the body
  raises on a \<open>str\<close>, so the handler that returns infinity adds no branch.
\<close>

definition convert_to_days :: "string \<Rightarrow> pyfloat" where
  "convert_to_days posting_time =
     (if posting_time = [] \<or> py_in ''not found'' posting_time then Infinity
      else (case re_match_time (cleaned_posted_time posting_time) of
              None \<Rightarrow> Infinity
            | Some (digits, unit) \<Rightarrow>
                (let v = round_double (of_nat (nat_of_digits digits))
                 in if unit = CHR ''m'' then float_div v (24 * 60)
                    else if unit = CHR ''h'' then float_div v 24
                    else v)))"

text \<open>
  \<open>SeekScraper._is_within_time_limit\<close>: v3 and v4 compare with \<open><=\<close>, v7 with \<open><\<close>.
  The limit is an optional string; \<open>not time_limit\<close> holds for \<open>None\<close> and for the empty
  string.
\<close>

definition is_within_time_limit_v3 :: "string \<Rightarrow> string option \<Rightarrow> bool" where
  "is_within_time_limit_v3 posting_time time_limit =
     (case time_limit of
        None \<Rightarrow> True
      | Some limit \<Rightarrow>
          if limit = [] then True
          else float_le (convert_to_days posting_time) (convert_to_days limit))"

definition is_within_time_limit_v4 :: "string \<Rightarrow> string option \<Rightarrow> bool" where
  "is_within_time_limit_v4 posting_time time_limit =
     (case time_limit of
        None \<Rightarrow> True
      | Some limit \<Rightarrow>
          if limit = [] then True
          else float_le (convert_to_days posting_time) (convert_to_days limit))"

definition is_within_time_limit :: "string \<Rightarrow> string option \<Rightarrow> bool" where
  "is_within_time_limit posting_time time_limit =
     (case time_limit of
        None \<Rightarrow> True
      | Some limit \<Rightarrow>
          if limit = [] then True
          else float_lt (convert_to_days posting_time) (convert_to_days limit))"

section \<open>Documents and the network\<close>

text \<open>
  What the scraper reads from a parsed document (a \<open>BeautifulSoup\<close> object), one field per
  selector query of the source.  Texts are the \<open>.text\<close> of the selected element, absent
  when the selector finds nothing.  A link is the result of \<open>urljoin(base_url, href)\<close>.

  A job card: the text of its first \<open>[data-automation="jobTitle"]\<close> element (read by v4
  only), and the link of its first \<open>a\<close> element, absent when there is no such element or
  it has no \<open>href\<close>.
\<close>

record card =
  card_title :: "string option"
  card_link :: "string option"

text \<open>
  The \<open>[data-automation="job-detail-location"]\<close> container: the text of its first anchor
  whose class contains \<open>gepq850\<close>, of its first anchor, and its own text.
\<close>

record location_container =
  styled_anchor :: "string option"
  any_anchor :: "string option"
  container_text :: string

text \<open>
  \<open>page_link n\<close> is the link of the first \<open>[data-automation="page-n"]\<close> element, absent
  when there is none or it has no \<open>href\<close>.  \<open>detail_spans\<close> are the texts of the
  \<open>[data-automation="jobDetailsPage"] span\<close> elements in document order.
\<close>

record soup =
  job_cards :: "card list"
  page_link :: "int \<Rightarrow> string option"
  detail_title :: "string option"
  location_box :: "location_container option"
  location_anchor :: "string option"
  advertiser_name :: "string option"
  job_ad_details :: "string option"
  detail_spans :: "string list"

text \<open>
  What one attempt to load a URL does.  With the browser driver: the rendered document, a
  \<open>TimeoutException\<close>, a \<open>WebDriverException\<close>, or any other exception.  The
  \<open>WebDriverException\<close> carries whether its message asks for a new driver
  (\<open>ERR_INTERNET_DISCONNECTED\<close> or \<open>invalid session id\<close>) and whether tearing the driver
  down and setting it up again raises in turn.  With the HTTP session: status 200 with its
  document, status 403, another status, or an exception.
\<close>

datatype selenium_outcome =
  Rendered soup
| Timeout
| WebDriverError bool bool
| OtherError

datatype aiohttp_outcome =
  Status200 soup
| Status403
| StatusOther
| Raised

text \<open>
  The scraper object with the world it talks to: each reply may depend on the URL and on
  how many requests were sent before it.  Sleeps and the random choice of a user agent
  are left out.
\<close>

record scraper =
  use_selenium :: bool
  selenium_reply :: "nat \<Rightarrow> string \<Rightarrow> selenium_outcome"
  aiohttp_reply :: "nat \<Rightarrow> string \<Rightarrow> aiohttp_outcome"

text \<open>An exception that leaves a function.\<close>

datatype exn = DriverSetupError | TransportError

section \<open>Fetching a page (v7)\<close>

text \<open>
  \<open>SeekScraper._fetch_with_selenium\<close>: the loop \<open>for attempt in range(max_retries)\<close> runs
  over the list of attempt numbers.  \<open>reqs\<close> is the list of URLs requested so far; every
  attempt adds one.  The driver is renewed only in the handler of \<open>WebDriverException\<close>
  and only before another attempt; an exception raised there leaves the function.
\<close>

fun selenium_attempts ::
  "scraper \<Rightarrow> string \<Rightarrow> nat \<Rightarrow> nat list \<Rightarrow> string list \<Rightarrow> (exn + soup option) \<times> string list"
where
  "selenium_attempts sc url max_retries [] reqs = (Inr None, reqs)"
| "selenium_attempts sc url max_retries (attempt # rest) reqs =
     (case selenium_reply sc (length reqs) url of
        Rendered page \<Rightarrow> (Inr (Some page), reqs @ [url])
      | Timeout \<Rightarrow> selenium_attempts sc url max_retries rest (reqs @ [url])
      | WebDriverError renew renew_raises \<Rightarrow>
          if attempt + 1 < max_retries \<and> renew \<and> renew_raises
          then (Inl DriverSetupError, reqs @ [url])
          else selenium_attempts sc url max_retries rest (reqs @ [url])
      | OtherError \<Rightarrow> selenium_attempts sc url max_retries rest (reqs @ [url]))"

definition fetch_with_selenium ::
  "scraper \<Rightarrow> string \<Rightarrow> nat \<Rightarrow> string list \<Rightarrow> (exn + soup option) \<times> string list"
where
  "fetch_with_selenium sc url max_retries reqs =
     selenium_attempts sc url max_retries [0..<max_retries] reqs"

text \<open>
  \<open>SeekScraper._fetch_with_aiohttp\<close>: status 403 and the other statuses only differ in
  the sleep; an exception on the last attempt is raised again.
\<close>

fun aiohttp_attempts ::
  "scraper \<Rightarrow> string \<Rightarrow> nat \<Rightarrow> nat list \<Rightarrow> string list \<Rightarrow> (exn + soup option) \<times> string list"
where
  "aiohttp_attempts sc url max_retries [] reqs = (Inr None, reqs)"
| "aiohttp_attempts sc url max_retries (attempt # rest) reqs =
     (case aiohttp_reply sc (length reqs) url of
        Status200 page \<Rightarrow> (Inr (Some page), reqs @ [url])
      | Status403 \<Rightarrow> aiohttp_attempts sc url max_retries rest (reqs @ [url])
      | StatusOther \<Rightarrow> aiohttp_attempts sc url max_retries rest (reqs @ [url])
      | Raised \<Rightarrow>
          if attempt + 1 < max_retries
          then aiohttp_attempts sc url max_retries rest (reqs @ [url])
          else (Inl TransportError, reqs @ [url]))"

definition fetch_with_aiohttp ::
  "scraper \<Rightarrow> string \<Rightarrow> nat \<Rightarrow> string list \<Rightarrow> (exn + soup option) \<times> string list"
where
  "fetch_with_aiohttp sc url max_retries reqs =
     aiohttp_attempts sc url max_retries [0..<max_retries] reqs"

text \<open>\<open>SeekScraper.fetch_page\<close> (v7).\<close>

definition fetch_page ::
  "scraper \<Rightarrow> string \<Rightarrow> nat \<Rightarrow> string list \<Rightarrow> (exn + soup option) \<times> string list"
where
  "fetch_page sc url max_retries reqs =
     (if use_selenium sc then fetch_with_selenium sc url max_retries reqs
      else fetch_with_aiohttp sc url max_retries reqs)"

section \<open>Job details (v7)\<close>

text \<open>
  \<open>SeekScraper.sanitize_text\<close> encodes to UTF-8 and decodes again; on a string of code
  points below 256 that gives the string back.
\<close>

definition sanitize_text :: "string \<Rightarrow> string" where
  "sanitize_text text = text"

text \<open>\<open>SeekScraper.extract_location\<close>.\<close>

definition extract_location :: "soup \<Rightarrow> string" where
  "extract_location page =
     (case location_box page of
        Some location_container \<Rightarrow>
          (case styled_anchor location_container of
             Some t \<Rightarrow> sanitize_text (strip t)
           | None \<Rightarrow>
               (case any_anchor location_container of
                  Some t \<Rightarrow> sanitize_text (strip t)
                | None \<Rightarrow> sanitize_text (strip (container_text location_container))))
      | None \<Rightarrow>
          (case location_anchor page of
             Some t \<Rightarrow> sanitize_text (strip t)
           | None \<Rightarrow> ''Location not found''))"

text \<open>An element's stripped and sanitized text, or the sentinel of the field.\<close>

definition text_or :: "string option \<Rightarrow> string \<Rightarrow> string" where
  "text_or element sentinel =
     sanitize_text (case element of Some t \<Rightarrow> strip t | None \<Rightarrow> sentinel)"

text \<open>The scan for the posting time: the first stripped span text that qualifies.\<close>

primrec scan_posting_time :: "string list \<Rightarrow> string" where
  "scan_posting_time [] = ''Posting time not found''"
| "scan_posting_time (element # posting_elements) =
     (let t = strip element
      in if py_in ''Posted'' t
            \<and> (py_in ''ago'' t \<or> py_in ''h'' t \<or> py_in ''d'' t \<or> py_in ''m'' t)
         then t
         else scan_posting_time posting_elements)"

record job =
  url :: string
  job_id :: string
  job_title :: string
  job_location :: string
  company :: string
  job_description :: string
  posting_time :: string
  job_type :: string

text \<open>The dictionary \<open>extract_job_details\<close> builds from a fetched detail page.\<close>

definition job_of_page :: "string \<Rightarrow> soup \<Rightarrow> job" where
  "job_of_page job_url page =
     (let title = text_or (detail_title page) ''Title not found''
      in \<lparr> url = job_url,
           job_id = extract_job_id job_url,
           job_title = title,
           job_location = extract_location page,
           company = text_or (advertiser_name page) ''Company not found'',
           job_description = text_or (job_ad_details page) ''Description not found'',
           posting_time = scan_posting_time (detail_spans page),
           job_type = categorize_job_type title \<rparr>)"

text \<open>
  \<open>SeekScraper.extract_job_details\<close> (v7): \<open>None\<close> when the page could not be fetched,
  also when \<open>fetch_page\<close> raised, since the whole body is inside a \<open>try\<close> whose handler
  returns \<open>None\<close>.
\<close>

definition extract_job_details ::
  "scraper \<Rightarrow> string \<Rightarrow> string list \<Rightarrow> job option \<times> string list"
where
  "extract_job_details sc job_url reqs =
     (case fetch_page sc job_url 3 reqs of
        (Inl e, reqs') \<Rightarrow> (None, reqs')
      | (Inr None, reqs') \<Rightarrow> (None, reqs')
      | (Inr (Some page), reqs') \<Rightarrow> (Some (job_of_page job_url page), reqs'))"

section \<open>The scrape loop (v7)\<close>

text \<open>
  The three variables \<open>scrape_jobs\<close> updates inside its loops, and the requests sent so
  far.  The type of a job dictionary is left open, as v4 builds another one than v7.
\<close>

record 'j scrape_state =
  all_jobs_data :: "'j list"
  jobs_scraped :: int
  requests :: "string list"

text \<open>
  \<open>for detail_attempt in range(3)\<close>: stops at the first attempt that gives a dictionary.
  \<open>extract_job_details\<close> raises nothing, so the handler of this loop has no branch.
\<close>

fun detail_attempts ::
  "scraper \<Rightarrow> string \<Rightarrow> nat list \<Rightarrow> string list \<Rightarrow> job option \<times> string list"
where
  "detail_attempts sc job_url [] reqs = (None, reqs)"
| "detail_attempts sc job_url (detail_attempt # rest) reqs =
     (case extract_job_details sc job_url reqs of
        (Some job_details, reqs') \<Rightarrow> (Some job_details, reqs')
      | (None, reqs') \<Rightarrow> detail_attempts sc job_url rest reqs')"

text \<open>
  \<open>limit and counter >= limit\<close> for an optional integer limit: \<open>None\<close> and 0 are false.
  This is the test on \<open>num_jobs\<close> and the test on \<open>max_pages\<close>.
\<close>

definition limit_reached :: "int option \<Rightarrow> int \<Rightarrow> bool" where
  "limit_reached limit counter =
     (case limit of None \<Rightarrow> False | Some n \<Rightarrow> n \<noteq> 0 \<and> n \<le> counter)"

text \<open>\<open>posted_time_limit and not self._is_within_time_limit(...)\<close>.\<close>

definition outside_time_limit :: "string \<Rightarrow> string option \<Rightarrow> bool" where
  "outside_time_limit posting posted_time_limit =
     (case posted_time_limit of
        None \<Rightarrow> False
      | Some limit \<Rightarrow> limit \<noteq> [] \<and> \<not> is_within_time_limit posting posted_time_limit)"

text \<open>
  How the loop over the cards of a page ends: it runs through (\<open>Continue\<close>) or it executes
  \<open>return all_jobs_data\<close> (\<open>Return\<close>).
\<close>

datatype 'j flow = Continue "'j scrape_state" | Return "'j scrape_state"

text \<open>The state in which the loop over the cards ends, either way.\<close>

primrec flow_state :: "'j flow \<Rightarrow> 'j scrape_state" where
  "flow_state (Continue st) = st"
| "flow_state (Return st) = st"

text \<open>\<open>for card in job_cards\<close> of \<open>scrape_jobs\<close> (v7).\<close>

fun for_cards ::
  "scraper \<Rightarrow> int option \<Rightarrow> string option \<Rightarrow> card list \<Rightarrow> job scrape_state
     \<Rightarrow> job flow"
where
  "for_cards sc num_jobs posted_time_limit [] st = Continue st"
| "for_cards sc num_jobs posted_time_limit (job_card # cards) st =
     (if limit_reached num_jobs (jobs_scraped st) then Return st
      else (case card_link job_card of
              None \<Rightarrow> for_cards sc num_jobs posted_time_limit cards st
            | Some job_url \<Rightarrow>
                (case detail_attempts sc job_url [0..<3] (requests st) of
                   (None, reqs) \<Rightarrow>
                     for_cards sc num_jobs posted_time_limit cards (st\<lparr>requests := reqs\<rparr>)
                 | (Some job_details, reqs) \<Rightarrow>
                     if outside_time_limit (posting_time job_details) posted_time_limit
                     then Return (st\<lparr>requests := reqs\<rparr>)
                     else for_cards sc num_jobs posted_time_limit cards
                            (st\<lparr>all_jobs_data := all_jobs_data st @ [job_details],
                                jobs_scraped := jobs_scraped st + 1,
                                requests := reqs\<rparr>))))"

text \<open>
  \<open>while True\<close> of \<open>scrape_jobs\<close> (v7).  The loop need not end, so it runs on fuel, one
  unit per page; \<open>None\<close> means the fuel ran out.  The result says whether an exception
  left the loop, and holds the state at that moment.  \<open>if not next_page_url\<close> holds for
  \<open>None\<close> and for an empty link.
\<close>

fun scrape_pages ::
  "nat \<Rightarrow> scraper \<Rightarrow> int option \<Rightarrow> int option \<Rightarrow> string option \<Rightarrow> string \<Rightarrow> int
     \<Rightarrow> job scrape_state \<Rightarrow> (exn option \<times> job scrape_state) option"
where
  "scrape_pages 0 sc num_jobs max_pages posted_time_limit current_url current_page st = None"
| "scrape_pages (Suc fuel) sc num_jobs max_pages posted_time_limit current_url current_page st =
     (case fetch_page sc current_url 3 (requests st) of
        (Inl e, reqs) \<Rightarrow> Some (Some e, st\<lparr>requests := reqs\<rparr>)
      | (Inr None, reqs) \<Rightarrow> Some (None, st\<lparr>requests := reqs\<rparr>)
      | (Inr (Some page), reqs) \<Rightarrow>
          (case for_cards sc num_jobs posted_time_limit (job_cards page) (st\<lparr>requests := reqs\<rparr>) of
             Return st' \<Rightarrow> Some (None, st')
           | Continue st' \<Rightarrow>
               if limit_reached max_pages current_page then Some (None, st')
               else (case page_link page (current_page + 1) of
                       None \<Rightarrow> Some (None, st')
                     | Some next_page_url \<Rightarrow>
                         if next_page_url = [] then Some (None, st')
                         else scrape_pages fuel sc num_jobs max_pages posted_time_limit
                                next_page_url (current_page + 1) st')))"

text \<open>
  \<open>SeekScraper.scrape_jobs\<close> (v7): the list it returns and the requests it has sent,
  starting after the requests \<open>reqs\<close>.  The handler around the whole body turns an
  exception into the empty list.
\<close>

definition scrape_jobs ::
  "nat \<Rightarrow> scraper \<Rightarrow> string \<Rightarrow> int option \<Rightarrow> int option \<Rightarrow> string option \<Rightarrow> string list
     \<Rightarrow> (job list \<times> string list) option"
where
  "scrape_jobs fuel sc search_url num_jobs max_pages posted_time_limit reqs =
     (case scrape_pages fuel sc num_jobs max_pages posted_time_limit search_url 1
             \<lparr>all_jobs_data = [], jobs_scraped = 0, requests = reqs\<rparr> of
        None \<Rightarrow> None
      | Some (None, st) \<Rightarrow> Some (all_jobs_data st, requests st)
      | Some (Some e, st) \<Rightarrow> Some ([], requests st))"

section \<open>The title filter and the scrape loop of v4\<close>

text \<open>\<open>SeekScraper.job_title_conditional_filter\<close> (v4).\<close>

definition job_title_conditional_filter :: "string \<Rightarrow> string option \<Rightarrow> bool" where
  "job_title_conditional_filter title job_title_filter =
     (case job_title_filter of
        None \<Rightarrow> True
      | Some words \<Rightarrow>
          if words = [] then True
          else list_all (\<lambda>word. py_in word (lower title)) (split (lower words)))"

text \<open>
  \<open>SeekScraper.fetch_page\<close> (v4): one transport, the HTTP session; every status other
  than 200 is reported and the next attempt follows.
\<close>

fun fetch_attempts_v4 ::
  "scraper \<Rightarrow> string \<Rightarrow> nat \<Rightarrow> nat list \<Rightarrow> string list \<Rightarrow> (exn + soup option) \<times> string list"
where
  "fetch_attempts_v4 sc url' max_retries [] reqs = (Inr None, reqs)"
| "fetch_attempts_v4 sc url' max_retries (attempt # rest) reqs =
     (case aiohttp_reply sc (length reqs) url' of
        Status200 page \<Rightarrow> (Inr (Some page), reqs @ [url'])
      | Raised \<Rightarrow>
          if attempt + 1 < max_retries
          then fetch_attempts_v4 sc url' max_retries rest (reqs @ [url'])
          else (Inl TransportError, reqs @ [url'])
      | _ \<Rightarrow> fetch_attempts_v4 sc url' max_retries rest (reqs @ [url']))"

definition fetch_page_v4 ::
  "scraper \<Rightarrow> string \<Rightarrow> nat \<Rightarrow> string list \<Rightarrow> (exn + soup option) \<times> string list"
where
  "fetch_page_v4 sc url' max_retries reqs =
     fetch_attempts_v4 sc url' max_retries [0..<max_retries] reqs"

text \<open>
  The dictionary of v4 has six keys; it is kept as the list of its items in insertion
  order.
\<close>

type_synonym job_v4 = "(string \<times> string) list"

definition job_of_page_v4 :: "string \<Rightarrow> soup \<Rightarrow> job_v4" where
  "job_of_page_v4 job_url page =
     [(''url'', job_url),
      (''job_id'', extract_job_id job_url),
      (''job_title'', text_or (detail_title page) ''Title not found''),
      (''company'', text_or (advertiser_name page) ''Company not found''),
      (''job_description'', text_or (job_ad_details page) ''Requirements not found''),
      (''posting_time'', scan_posting_time (detail_spans page))]"

definition extract_job_details_v4 ::
  "scraper \<Rightarrow> string \<Rightarrow> string list \<Rightarrow> job_v4 option \<times> string list"
where
  "extract_job_details_v4 sc job_url reqs =
     (case fetch_page_v4 sc job_url 3 reqs of
        (Inl e, reqs') \<Rightarrow> (None, reqs')
      | (Inr None, reqs') \<Rightarrow> (None, reqs')
      | (Inr (Some page), reqs') \<Rightarrow> (Some (job_of_page_v4 job_url page), reqs'))"

fun detail_attempts_v4 ::
  "scraper \<Rightarrow> string \<Rightarrow> nat list \<Rightarrow> string list \<Rightarrow> job_v4 option \<times> string list"
where
  "detail_attempts_v4 sc job_url [] reqs = (None, reqs)"
| "detail_attempts_v4 sc job_url (detail_attempt # rest) reqs =
     (case extract_job_details_v4 sc job_url reqs of
        (Some job_details, reqs') \<Rightarrow> (Some job_details, reqs')
      | (None, reqs') \<Rightarrow> detail_attempts_v4 sc job_url rest reqs')"

definition outside_time_limit_v4 :: "string \<Rightarrow> string option \<Rightarrow> bool" where
  "outside_time_limit_v4 posting posted_time_limit =
     (case posted_time_limit of
        None \<Rightarrow> False
      | Some limit \<Rightarrow> limit \<noteq> [] \<and> \<not> is_within_time_limit_v4 posting posted_time_limit)"

text \<open>
  \<open>for card in job_cards\<close> of \<open>scrape_jobs\<close> (v4): the title of the card is read and
  filtered before the link is looked at.  A dictionary without the key \<open>posting_time\<close>
  would raise a \<open>KeyError\<close>, which the handler of the card answers with \<open>continue\<close>.
\<close>

fun for_cards_v4 ::
  "scraper \<Rightarrow> int option \<Rightarrow> string option \<Rightarrow> string option \<Rightarrow> card list
     \<Rightarrow> job_v4 scrape_state \<Rightarrow> job_v4 flow"
where
  "for_cards_v4 sc num_jobs posted_time_limit job_title_filter [] st = Continue st"
| "for_cards_v4 sc num_jobs posted_time_limit job_title_filter (job_card # cards) st =
     (if limit_reached num_jobs (jobs_scraped st) then Return st
      else (case card_title job_card of
              None \<Rightarrow> for_cards_v4 sc num_jobs posted_time_limit job_title_filter cards st
            | Some title_text \<Rightarrow>
                if \<not> job_title_conditional_filter (strip title_text) job_title_filter
                then for_cards_v4 sc num_jobs posted_time_limit job_title_filter cards st
                else (case card_link job_card of
                        None \<Rightarrow>
                          for_cards_v4 sc num_jobs posted_time_limit job_title_filter cards st
                      | Some job_url \<Rightarrow>
                          (case detail_attempts_v4 sc job_url [0..<3] (requests st) of
                             (None, reqs) \<Rightarrow>
                               for_cards_v4 sc num_jobs posted_time_limit job_title_filter cards
                                 (st\<lparr>requests := reqs\<rparr>)
                           | (Some job_details, reqs) \<Rightarrow>
                               (case map_of job_details ''posting_time'' of
                                  None \<Rightarrow>
                                    for_cards_v4 sc num_jobs posted_time_limit job_title_filter
                                      cards (st\<lparr>requests := reqs\<rparr>)
                                | Some posting \<Rightarrow>
                                    if outside_time_limit_v4 posting posted_time_limit
                                    then Return (st\<lparr>requests := reqs\<rparr>)
                                    else for_cards_v4 sc num_jobs posted_time_limit
                                           job_title_filter cards
                                           (st\<lparr>all_jobs_data := all_jobs_data st @ [job_details],
                                               jobs_scraped := jobs_scraped st + 1,
                                               requests := reqs\<rparr>))))))"

text \<open>\<open>while True\<close> of \<open>scrape_jobs\<close> (v4), on fuel as above.\<close>

fun scrape_pages_v4 ::
  "nat \<Rightarrow> scraper \<Rightarrow> int option \<Rightarrow> int option \<Rightarrow> string option \<Rightarrow> string option \<Rightarrow> string
     \<Rightarrow> int \<Rightarrow> job_v4 scrape_state \<Rightarrow> (exn option \<times> job_v4 scrape_state) option"
where
  "scrape_pages_v4 0 sc num_jobs max_pages posted_time_limit job_title_filter current_url
     current_page st = None"
| "scrape_pages_v4 (Suc fuel) sc num_jobs max_pages posted_time_limit job_title_filter
     current_url current_page st =
     (case fetch_page_v4 sc current_url 3 (requests st) of
        (Inl e, reqs) \<Rightarrow> Some (Some e, st\<lparr>requests := reqs\<rparr>)
      | (Inr None, reqs) \<Rightarrow> Some (None, st\<lparr>requests := reqs\<rparr>)
      | (Inr (Some page), reqs) \<Rightarrow>
          (case for_cards_v4 sc num_jobs posted_time_limit job_title_filter (job_cards page)
                  (st\<lparr>requests := reqs\<rparr>) of
             Return st' \<Rightarrow> Some (None, st')
           | Continue st' \<Rightarrow>
               if limit_reached max_pages current_page then Some (None, st')
               else (case page_link page (current_page + 1) of
                       None \<Rightarrow> Some (None, st')
                     | Some next_page_url \<Rightarrow>
                         if next_page_url = [] then Some (None, st')
                         else scrape_pages_v4 fuel sc num_jobs max_pages posted_time_limit
                                job_title_filter next_page_url (current_page + 1) st')))"

text \<open>\<open>SeekScraper.scrape_jobs\<close> (v4).\<close>

definition scrape_jobs_v4 ::
  "nat \<Rightarrow> scraper \<Rightarrow> string \<Rightarrow> int option \<Rightarrow> int option \<Rightarrow> string option \<Rightarrow> string option
     \<Rightarrow> string list \<Rightarrow> (job_v4 list \<times> string list) option"
where
  "scrape_jobs_v4 fuel sc search_url num_jobs max_pages posted_time_limit job_title_filter reqs =
     (case scrape_pages_v4 fuel sc num_jobs max_pages posted_time_limit job_title_filter
             search_url 1 \<lparr>all_jobs_data = [], jobs_scraped = 0, requests = reqs\<rparr> of
        None \<Rightarrow> None
      | Some (None, st) \<Rightarrow> Some (all_jobs_data st, requests st)
      | Some (Some e, st) \<Rightarrow> Some ([], requests st))"

section \<open>A job board for the worked examples\<close>

text \<open>
  A small site on which the theorems below are run: a first results page with five
  cards and a link to a second results page, two jobs posted three hours ago, the
  others two days ago, and a second results page that cannot be loaded.
\<close>

definition blank_page :: soup where
  "blank_page =
     \<lparr> job_cards = [], page_link = (\<lambda>n. None), detail_title = None, location_box = None,
       location_anchor = None, advertiser_name = None, job_ad_details = None,
       detail_spans = [] \<rparr>"

definition results_page :: "card list \<Rightarrow> (int \<Rightarrow> string option) \<Rightarrow> soup" where
  "results_page cards links = blank_page\<lparr>job_cards := cards, page_link := links\<rparr>"

definition detail_page :: "string \<Rightarrow> string \<Rightarrow> soup" where
  "detail_page title posted =
     blank_page\<lparr>detail_title := Some title, detail_spans := [posted]\<rparr>"

definition link_card :: "string \<Rightarrow> string \<Rightarrow> card" where
  "link_card title link = \<lparr>card_title = Some title, card_link = Some link\<rparr>"

definition board_cards :: "card list" where
  "board_cards =
     [link_card ''Senior Data Engineer'' ''https://www.seek.com.au/job/1'',
      link_card ''Data Analyst, Remote'' ''https://www.seek.com.au/job/2'',
      link_card ''Analyst (Data)'' ''https://www.seek.com.au/job/3'',
      link_card ''Business Analyst'' ''https://www.seek.com.au/job/4'',
      link_card ''Report Developer'' ''https://www.seek.com.au/job/5'']"

definition board_document :: "string \<Rightarrow> soup option" where
  "board_document u =
     (if u = ''https://www.seek.com.au/jobs''
      then Some (results_page board_cards
                   (\<lambda>n. if n = 2 then Some ''https://www.seek.com.au/jobs?page=2'' else None))
      else if u = ''https://www.seek.com.au/jobs?page=2'' then None
      else if u = ''https://www.seek.com.au/job/1'' \<or> u = ''https://www.seek.com.au/job/2''
      then Some (detail_page ''A job'' ''Posted 3h ago'')
      else Some (detail_page ''A job'' ''Posted 2d ago''))"

text \<open>The board seen through the browser driver, and through the HTTP session.\<close>

definition board_browser :: scraper where
  "board_browser =
     \<lparr> use_selenium = True,
       selenium_reply = (\<lambda>n u. case board_document u of Some d \<Rightarrow> Rendered d | None \<Rightarrow> Timeout),
       aiohttp_reply = (\<lambda>n u. case board_document u of Some d \<Rightarrow> Status200 d | None \<Rightarrow> Raised) \<rparr>"

definition board_session :: scraper where
  "board_session = board_browser\<lparr>use_selenium := False\<rparr>"

section \<open>Facts about the string functions\<close>

lemma find_first_char:
  "find_first [c] s =
     (if c \<in> set s then Some (length (takeWhile (\<lambda>x. x \<noteq> c) s)) else None)"
  by (induction s) auto

lemma find_first_bound: "find_first sub s = Some i \<Longrightarrow> i + length sub \<le> length s"
proof (induction s arbitrary: i)
  case Nil
  then show ?case by (simp split: if_splits)
next
  case (Cons c cs)
  show ?case
  proof (cases "prefix sub (c # cs)")
    case True
    with Cons.prems have "i = 0" by simp
    with True show ?thesis using prefix_length_le by fastforce
  next
    case False
    with Cons.prems obtain k where "find_first sub cs = Some k" "i = Suc k" by auto
    with Cons.IH show ?thesis by fastforce
  qed
qed

lemma py_find_from_start:
  "py_find s sub 0 = (case find_first sub s of None \<Rightarrow> - 1 | Some i \<Rightarrow> int i)"
  by (simp add: py_find_def split: option.splits)

lemma takeWhile_run:
  "\<forall>c\<in>set xs. P c \<Longrightarrow> \<not> P y \<Longrightarrow> takeWhile P (xs @ y # ys) = xs"
  by (induction xs) auto

lemma dropWhile_run:
  "\<forall>c\<in>set xs. P c \<Longrightarrow> \<not> P y \<Longrightarrow> dropWhile P (xs @ y # ys) = y # ys"
  by (induction xs) auto

section \<open>The job identifier\<close>

text \<open>
  When \<open>/job/\<close> occurs in the URL, first at index \<open>i\<close>, the identifier is what stands
  between it and the next question mark, or the end of the URL.
\<close>

lemma extract_job_id_found:
  assumes "py_find u ''/job/'' 0 = int i"
  shows "extract_job_id u = takeWhile (\<lambda>c. c \<noteq> CHR ''?'') (drop (i + 5) u)"
proof -
  from assms have ff: "find_first ''/job/'' u = Some i"
    by (simp add: py_find_from_start split: option.splits)
  then have len: "i + 5 \<le> length u" using find_first_bound by fastforce
  let ?tl = "drop (i + 5) u"
  have start: "py_find u ''/job/'' 0 + 5 = int (i + 5)" using assms by simp
  have fnd: "py_find u ''?'' (int (i + 5)) =
      (if CHR ''?'' \<in> set ?tl
       then int (i + 5) + int (length (takeWhile (\<lambda>x. x \<noteq> CHR ''?'') ?tl)) else - 1)"
    using len by (simp add: py_find_def find_first_char del: of_nat_add)
  show ?thesis
  proof (cases "CHR ''?'' \<in> set ?tl")
    case False
    then have "takeWhile (\<lambda>x. x \<noteq> CHR ''?'') ?tl = ?tl"
      unfolding takeWhile_eq_all_conv by blast
    then have tw: "?tl = takeWhile (\<lambda>x. x \<noteq> CHR ''?'') ?tl" by (rule sym)
    have "extract_job_id u = ?tl" using False len
      unfolding extract_job_id_def Let_def start fnd
      by (simp add: slice_from_def slice_bound_def del: of_nat_add)
    then show ?thesis using tw by (rule trans)
  next
    case True
    let ?k = "length (takeWhile (\<lambda>x. x \<noteq> CHR ''?'') ?tl)"
    have k: "?k \<le> length ?tl" by (rule length_takeWhile_le)
    then have k': "i + 5 + ?k \<le> length u" using len by simp
    have e: "int (i + 5) + int ?k = int (i + 5 + ?k)" by simp
    have ne: "int (i + 5 + ?k) \<noteq> - 1" by linarith
    have "slice u (int (i + 5)) (int (i + 5 + ?k)) = take ?k ?tl"
      using len k' by (simp add: slice_def slice_bound_def Let_def del: of_nat_add)
    also have "\<dots> = takeWhile (\<lambda>x. x \<noteq> CHR ''?'') ?tl"
      by (rule takeWhile_eq_take[symmetric])
    finally show ?thesis using True ne
      unfolding extract_job_id_def Let_def start fnd e by simp
  qed
qed

text \<open>
  So a URL of the form \<open>.../job/<id>?...\<close> or \<open>.../job/<id>\<close>, where \<open>/job/\<close> does not
  occur earlier and the id holds no question mark, gives exactly the id.
\<close>

lemma extract_job_id_segment:
  assumes "py_find (pre @ ''/job/'' @ ident @ ''?'' @ rest) ''/job/'' 0 = int (length pre)"
    and "CHR ''?'' \<notin> set ident"
  shows "extract_job_id (pre @ ''/job/'' @ ident @ ''?'' @ rest) = ident"
proof -
  have "drop (length pre + 5) (pre @ ''/job/'' @ ident @ ''?'' @ rest) = ident @ CHR ''?'' # rest"
    by simp
  moreover have "takeWhile (\<lambda>c. c \<noteq> CHR ''?'') (ident @ CHR ''?'' # rest) = ident"
    using assms(2) by (intro takeWhile_run) auto
  ultimately show ?thesis using extract_job_id_found[OF assms(1)] by simp
qed

lemma extract_job_id_to_end:
  assumes "py_find (pre @ ''/job/'' @ ident) ''/job/'' 0 = int (length pre)"
    and "CHR ''?'' \<notin> set ident"
  shows "extract_job_id (pre @ ''/job/'' @ ident) = ident"
proof -
  have "drop (length pre + 5) (pre @ ''/job/'' @ ident) = ident" by simp
  moreover have "takeWhile (\<lambda>c. c \<noteq> CHR ''?'') ident = ident"
    using assms(2) unfolding takeWhile_eq_all_conv by blast
  ultimately show ?thesis using extract_job_id_found[OF assms(1)] by (simp del: takeWhile_eq_all_conv)
qed

lemma extract_job_id_example:
  "extract_job_id ''https://www.seek.com.au/job/81234567?type=standard&ref=search''
     = ''81234567''"
  by (simp add: extract_job_id_def py_find_def slice_from_def slice_def slice_bound_def Let_def)

text \<open>
  C1.  A URL without \<open>/job/\<close> does not give the sentinel \<open>"Job ID not found"\<close>:
  \<open>find\<close> answers \<open>-1\<close>, the start index becomes 4, and the URL from its fifth character
  on is returned.
\<close>

theorem extract_job_id_no_job_segment:
  "extract_job_id ''https://www.seek.com.au/jobs'' = ''s://www.seek.com.au/jobs''
   \<and> extract_job_id ''https://www.seek.com.au/jobs'' \<noteq> ''Job ID not found''"
  by (simp add: extract_job_id_def py_find_def slice_from_def slice_def slice_bound_def Let_def)

section \<open>The job type\<close>

text \<open>
  C7.  \<open>categorize_job_type\<close> is the first-match lookup of the rule table on the
  lower-cased title, with \<open>"unknown"\<close> when no keyword occurs.  The title
  \<open>"Senior Data Engineer"\<close> contains the keywords of the second and of the third rule and
  gets the category of the second.
\<close>

theorem categorize_job_type_first_rule:
  "categorize_job_type title = first_rule job_type_rules (lower title)
   \<and> py_in ''data engineer'' (lower ''Senior Data Engineer'')
   \<and> py_in ''engineer'' (lower ''Senior Data Engineer'')
   \<and> categorize_job_type ''Senior Data Engineer'' = snd (job_type_rules ! 1)
   \<and> categorize_job_type ''Senior Data Engineer'' = ''Data Engineer''"
  by (simp add: categorize_job_type_def job_type_rules_def Let_def lower_def lower_char_def
      isupper_def)

section \<open>Rounding to a double\<close>

lemma round_half_even_of_int [simp]: "round_half_even (of_int k) = k"
  by (simp add: round_half_even_def)

lemma round_half_even_mono: "x \<le> y \<Longrightarrow> round_half_even x \<le> round_half_even y"
proof -
  assume xy: "x \<le> y"
  have ub: "round_half_even x \<le> \<lfloor>x\<rfloor> + 1" by (simp add: round_half_even_def Let_def)
  have lb: "\<lfloor>y\<rfloor> \<le> round_half_even y" by (simp add: round_half_even_def Let_def)
  show ?thesis
  proof (cases "\<lfloor>x\<rfloor> < \<lfloor>y\<rfloor>")
    case True
    with ub lb show ?thesis by linarith
  next
    case False
    with xy have "\<lfloor>x\<rfloor> = \<lfloor>y\<rfloor>" using floor_mono[OF xy] by linarith
    with xy show ?thesis by (auto simp add: round_half_even_def Let_def)
  qed
qed

lemma round_half_even_ge: "of_int k \<le> x \<Longrightarrow> k \<le> round_half_even x"
  using round_half_even_mono[of "of_int k" x] by simp

lemma round_half_even_le: "x \<le> of_int k \<Longrightarrow> round_half_even x \<le> k"
  using round_half_even_mono[of x "of_int k"] by simp

lemma bit_length_pos: "0 < n \<Longrightarrow> 0 < bit_length n"
proof (induction n rule: bit_length.induct)
  case (1 n)
  have "0 \<le> bit_length (n div 2)"
  proof (cases "0 < n div 2")
    case True
    with 1 show ?thesis by simp
  next
    case False
    then show ?thesis by (subst bit_length.simps) simp
  qed
  with 1(2) show ?case by (subst bit_length.simps) simp
qed

lemma bit_length_bounds:
  "0 < n \<Longrightarrow> 2 ^ nat (bit_length n - 1) \<le> n \<and> n < 2 ^ nat (bit_length n)"
proof (induction n rule: bit_length.induct)
  case (1 n)
  let ?m = "n div 2"
  have bl: "bit_length n = 1 + bit_length ?m" using 1(2) by (subst bit_length.simps) simp
  show ?case
  proof (cases "0 < ?m")
    case False
    with 1(2) have n1: "n = 1" by linarith
    have "bit_length ?m = 0" using False by (subst bit_length.simps) simp
    with bl n1 show ?thesis by simp
  next
    case True
    with 1 have ih: "2 ^ nat (bit_length ?m - 1) \<le> ?m" "?m < 2 ^ nat (bit_length ?m)" by auto
    have p: "0 < bit_length ?m" using True by (rule bit_length_pos)
    then have e1: "nat (bit_length n - 1) = Suc (nat (bit_length ?m - 1))" using bl by simp
    have e2: "nat (bit_length n) = Suc (nat (bit_length ?m))" using bl p by simp
    have "2 * ?m \<le> n" "n \<le> 2 * ?m + 1" by linarith+
    with ih show ?thesis unfolding e1 e2 by simp
  qed
qed

lemma power_int_nat: "0 \<le> k \<Longrightarrow> (2::rat) powi k = of_int (2 ^ nat k)"
  by (simp add: power_int_def)

lemma bit_length_bounds_rat:
  assumes "0 < n"
  shows "2 powi (bit_length n - 1) \<le> (of_int n :: rat)" "(of_int n :: rat) < 2 powi (bit_length n)"
proof -
  have p: "0 < bit_length n" using assms by (rule bit_length_pos)
  from bit_length_bounds[OF assms]
  have a: "2 ^ nat (bit_length n - 1) \<le> n" and b: "n < 2 ^ nat (bit_length n)" by auto
  have "(2::rat) powi (bit_length n - 1) = of_int (2 ^ nat (bit_length n - 1))"
    using p by (intro power_int_nat) simp
  also have "\<dots> \<le> of_int n" using a by (simp only: of_int_le_iff)
  finally show "2 powi (bit_length n - 1) \<le> (of_int n :: rat)" .
  have "(of_int n :: rat) < of_int (2 ^ nat (bit_length n))" using b by (simp only: of_int_less_iff)
  also have "\<dots> = 2 powi (bit_length n)" using p by (intro power_int_nat[symmetric]) simp
  finally show "(of_int n :: rat) < 2 powi (bit_length n)" .
qed

lemma binary_exponent_bounds:
  assumes "0 < x"
  shows "2 powi (binary_exponent x) \<le> x" "x < 2 powi (binary_exponent x + 1)"
proof -
  obtain a b where q: "quotient_of x = (a, b)" by (cases "quotient_of x")
  then have b: "0 < b" by (rule quotient_of_denom_pos)
  have x: "x = of_int a / of_int b" using q by (rule quotient_of_div)
  with assms b have a: "0 < a" by (simp add: zero_less_divide_iff)
  let ?k = "bit_length a - bit_length b"
  note ba = bit_length_bounds_rat[OF a] and bb = bit_length_bounds_rat[OF b]
  have bpos: "(0::rat) < of_int b" using b by simp
  have apos: "(0::rat) < of_int a" using a by simp
  have "x < 2 powi (bit_length a) / 2 powi (bit_length b - 1)"
    unfolding x using ba(2) bb(1) bpos apos
    by (intro frac_less) auto
  also have "\<dots> = 2 powi (?k + 1)"
    by (simp add: power_int_diff[symmetric] algebra_simps)
  finally have up: "x < 2 powi (?k + 1)" .
  have "2 powi (bit_length a - 1) / 2 powi (bit_length b) < x"
    unfolding x using ba(1) bb(2) bpos apos
    by (intro frac_less2) auto
  moreover have "2 powi (bit_length a - 1) / 2 powi (bit_length b) = (2::rat) powi (?k - 1)"
    by (simp add: power_int_diff[symmetric] algebra_simps)
  ultimately have low: "2 powi (?k - 1) < x" by simp
  have e: "binary_exponent x = (if 2 powi ?k \<le> x then ?k else ?k - 1)"
    by (simp add: binary_exponent_def q Let_def)
  show "2 powi (binary_exponent x) \<le> x" using low unfolding e by auto
  show "x < 2 powi (binary_exponent x + 1)" using up unfolding e by auto
qed

lemma binary_exponent_mono:
  assumes "0 < x" "x \<le> y"
  shows "binary_exponent x \<le> binary_exponent y"
proof (rule ccontr)
  assume "\<not> binary_exponent x \<le> binary_exponent y"
  then have "binary_exponent y + 1 \<le> binary_exponent x" by simp
  then have "(2::rat) powi (binary_exponent y + 1) \<le> 2 powi (binary_exponent x)"
    by (intro power_int_increasing) auto
  also have "\<dots> \<le> x" using assms(1) by (rule binary_exponent_bounds)
  also have "\<dots> \<le> y" by (rule assms(2))
  also have "\<dots> < 2 powi (binary_exponent y + 1)"
    using assms by (intro binary_exponent_bounds) auto
  finally show False by simp
qed

lemma quantum_exponent_mono:
  "0 < x \<Longrightarrow> x \<le> y \<Longrightarrow> quantum_exponent x \<le> quantum_exponent y"
  using binary_exponent_mono[of x y] by (simp add: quantum_exponent_def)

lemma scaled_less:
  assumes "0 < x"
  shows "x / 2 powi quantum_exponent x < 2 ^ 53"
proof -
  have "x < 2 powi (binary_exponent x + 1)" using assms by (rule binary_exponent_bounds)
  also have "\<dots> \<le> 2 powi (quantum_exponent x + 53)"
    by (intro power_int_increasing) (auto simp add: quantum_exponent_def)
  also have "\<dots> = 2 powi quantum_exponent x * 2 ^ 53"
    by (simp add: power_int_add)
  finally show ?thesis by (simp add: pos_divide_less_eq mult.commute)
qed

lemma scaled_ge:
  assumes "0 < x" "- 1022 \<le> binary_exponent x"
  shows "2 ^ 52 \<le> x / 2 powi quantum_exponent x"
proof -
  have q: "binary_exponent x = quantum_exponent x + 52"
    using assms(2) by (simp add: quantum_exponent_def)
  have "2 powi quantum_exponent x * 2 ^ 52 = (2::rat) powi (quantum_exponent x + 52)"
    by (simp add: power_int_add)
  also have "\<dots> \<le> x" using binary_exponent_bounds(1)[OF assms(1)] unfolding q .
  finally show ?thesis by (simp add: pos_le_divide_eq mult.commute)
qed

lemma significand_le: "0 < x \<Longrightarrow> significand x \<le> 2 ^ 53"
  unfolding significand_def using scaled_less[of x]
  by (intro round_half_even_le) simp

lemma significand_nonneg: "0 < x \<Longrightarrow> 0 \<le> significand x"
  unfolding significand_def by (intro round_half_even_ge) simp

lemma significand_ge:
  "0 < x \<Longrightarrow> - 1022 \<le> binary_exponent x \<Longrightarrow> 2 ^ 52 \<le> significand x"
  unfolding significand_def using scaled_ge[of x]
  by (intro round_half_even_ge) simp

lemma rounded_le:
  assumes "0 < x"
  shows "rounded x \<le> 2 powi (quantum_exponent x + 53)"
proof -
  have "(of_int (significand x) :: rat) \<le> of_int (2 ^ 53)"
    using significand_le[OF assms] by (simp only: of_int_le_iff)
  then have "rounded x \<le> 2 ^ 53 * 2 powi quantum_exponent x"
    unfolding rounded_def by (intro mult_right_mono) auto
  also have "\<dots> = 2 powi (quantum_exponent x + 53)" by (simp add: power_int_add)
  finally show ?thesis .
qed

lemma rounded_ge:
  assumes "0 < x" "- 1022 \<le> binary_exponent x"
  shows "2 powi binary_exponent x \<le> rounded x"
proof -
  have q: "binary_exponent x = quantum_exponent x + 52"
    using assms(2) by (simp add: quantum_exponent_def)
  have "(of_int (2 ^ 52) :: rat) \<le> of_int (significand x)"
    using significand_ge[OF assms] by (simp only: of_int_le_iff)
  then have "2 ^ 52 * 2 powi quantum_exponent x \<le> rounded x"
    unfolding rounded_def by (intro mult_right_mono) auto
  moreover have "2 ^ 52 * 2 powi quantum_exponent x = (2::rat) powi binary_exponent x"
    unfolding q by (simp add: power_int_add)
  ultimately show ?thesis by simp
qed

lemma rounded_nonneg: "0 < x \<Longrightarrow> 0 \<le> rounded x"
  unfolding rounded_def using significand_nonneg[of x] by simp

lemma rounded_mono:
  assumes "0 < x" "x \<le> y"
  shows "rounded x \<le> rounded y"
proof -
  have y: "0 < y" using assms by simp
  have qm: "quantum_exponent x \<le> quantum_exponent y" using assms by (rule quantum_exponent_mono)
  show ?thesis
  proof (cases "quantum_exponent x = quantum_exponent y")
    case True
    have "x / 2 powi quantum_exponent y \<le> y / 2 powi quantum_exponent y"
      using assms(2) by (intro divide_right_mono) auto
    then have "significand x \<le> significand y"
      unfolding significand_def True by (rule round_half_even_mono)
    then have "(of_int (significand x) :: rat) \<le> of_int (significand y)"
      by (simp only: of_int_le_iff)
    then show ?thesis unfolding rounded_def True by (intro mult_right_mono) auto
  next
    case False
    with qm have lt: "quantum_exponent x < quantum_exponent y" by simp
    then have ey: "- 1022 \<le> binary_exponent y" "binary_exponent y = quantum_exponent y + 52"
      by (auto simp add: quantum_exponent_def)
    have "rounded x \<le> 2 powi (quantum_exponent x + 53)" using assms(1) by (rule rounded_le)
    also have "\<dots> \<le> 2 powi binary_exponent y"
      unfolding ey(2) using lt by (intro power_int_increasing) auto
    also have "\<dots> \<le> rounded y" using y ey(1) by (rule rounded_ge)
    finally show ?thesis .
  qed
qed

lemma overflow_iff:
  assumes "0 < x"
  shows "(1024 \<le> binary_exponent x \<or> (binary_exponent x = 1023 \<and> significand x = 2 ^ 53))
           \<longleftrightarrow> 2 powi 1024 \<le> rounded x"
proof
  assume "1024 \<le> binary_exponent x \<or> (binary_exponent x = 1023 \<and> significand x = 2 ^ 53)"
  then show "2 powi 1024 \<le> rounded x"
  proof
    assume a: "1024 \<le> binary_exponent x"
    then have "(2::rat) powi 1024 \<le> 2 powi binary_exponent x"
      by (intro power_int_increasing) auto
    also have "\<dots> \<le> rounded x" using assms a by (intro rounded_ge) auto
    finally show ?thesis .
  next
    assume a: "binary_exponent x = 1023 \<and> significand x = 2 ^ 53"
    then have q: "quantum_exponent x = 971" by (simp add: quantum_exponent_def)
    have "rounded x = 2 ^ 53 * 2 powi 971" unfolding rounded_def q using a by simp
    also have "\<dots> = 2 powi (971 + 53)" by (subst power_int_add) auto
    finally show ?thesis by simp
  qed
next
  assume a: "2 powi 1024 \<le> rounded x"
  show "1024 \<le> binary_exponent x \<or> (binary_exponent x = 1023 \<and> significand x = 2 ^ 53)"
  proof (rule ccontr)
    assume n: "\<not> (1024 \<le> binary_exponent x \<or> (binary_exponent x = 1023 \<and> significand x = 2 ^ 53))"
    show False
    proof (cases "binary_exponent x = 1023")
      case False
      with n have "quantum_exponent x + 53 \<le> 1023" by (simp add: quantum_exponent_def)
      then have "(2::rat) powi (quantum_exponent x + 53) \<le> 2 powi 1023"
        by (intro power_int_increasing) auto
      with rounded_le[OF assms] have "rounded x \<le> 2 powi 1023" by simp
      also have "\<dots> < (2::rat) powi 1024" by (intro power_int_strict_increasing) auto
      finally show False using a by simp
    next
      case True
      then have q: "quantum_exponent x = 971" by (simp add: quantum_exponent_def)
      from True n significand_le[OF assms] have "significand x \<le> 2 ^ 53 - 1" by simp
      then have "(of_int (significand x) :: rat) \<le> of_int (2 ^ 53 - 1)"
        by (simp only: of_int_le_iff)
      then have "rounded x \<le> (2 ^ 53 - 1) * 2 powi 971"
        unfolding rounded_def q by (intro mult_right_mono) auto
      also have "\<dots> < 2 ^ 53 * 2 powi 971"
        by (intro mult_strict_right_mono) auto
      also have "\<dots> = (2::rat) powi (971 + 53)" by (subst power_int_add) auto
      finally show False using a by simp
    qed
  qed
qed

lemma round_double_pos:
  "0 < x \<Longrightarrow> round_double x = (if 2 powi 1024 \<le> rounded x then Infinity else Finite (rounded x))"
  using overflow_iff[of x] by (simp add: round_double_def rounded_def)

lemma round_double_mono:
  assumes "0 \<le> x" "x \<le> y"
  shows "float_le (round_double x) (round_double y)"
proof (cases "0 < x")
  case True
  then have y: "0 < y" using assms by simp
  from rounded_mono[OF True assms(2)] show ?thesis
    by (simp add: round_double_pos True y)
next
  case False
  with assms have x: "x = 0" by simp
  show ?thesis
  proof (cases "0 < y")
    case True
    have rx: "round_double x = Finite 0" using x by (simp add: round_double_def)
    show ?thesis unfolding rx round_double_pos[OF True] using rounded_nonneg[OF True] by simp
  next
    case False
    then show ?thesis by (simp add: x round_double_def)
  qed
qed

lemma round_double_nonneg: "round_double x = Finite r \<Longrightarrow> 0 \<le> r"
proof (cases "0 < x")
  case True
  assume "round_double x = Finite r"
  with rounded_nonneg[OF True] show ?thesis by (simp add: round_double_pos True split: if_splits)
next
  case False
  assume "round_double x = Finite r"
  with False show ?thesis by (simp add: round_double_def)
qed

lemma float_div_mono:
  assumes "float_le a b" "0 < d" "\<And>r. a = Finite r \<Longrightarrow> 0 \<le> r"
  shows "float_le (float_div a d) (float_div b d)"
proof (cases b)
  case Infinity
  then show ?thesis by simp
next
  case (Finite s)
  with assms(1) obtain r where a: "a = Finite r" "r \<le> s" by (cases a) auto
  with assms(3) have "0 \<le> r" by simp
  then have "0 \<le> r / d" "r / d \<le> s / d" using assms(2) a(2) by (auto simp add: divide_right_mono)
  then show ?thesis unfolding a Finite by (simp add: round_double_mono)
qed

lemma binary_exponent_unique:
  assumes "0 < x" "2 powi e \<le> x" "x < 2 powi (e + 1)"
  shows "binary_exponent x = e"
proof (rule antisym)
  show "binary_exponent x \<le> e"
  proof (rule ccontr)
    assume "\<not> binary_exponent x \<le> e"
    then have "e + 1 \<le> binary_exponent x" by simp
    then have "(2::rat) powi (e + 1) \<le> 2 powi binary_exponent x"
      by (intro power_int_increasing) auto
    also have "\<dots> \<le> x" using assms(1) by (rule binary_exponent_bounds)
    finally show False using assms(3) by simp
  qed
  show "e \<le> binary_exponent x"
  proof (rule ccontr)
    assume "\<not> e \<le> binary_exponent x"
    then have "binary_exponent x + 1 \<le> e" by simp
    then have "(2::rat) powi (binary_exponent x + 1) \<le> 2 powi e"
      by (intro power_int_increasing) auto
    also have "\<dots> \<le> x" by (rule assms(2))
    finally show False using binary_exponent_bounds(2)[OF assms(1)] by simp
  qed
qed

lemma round_double_of_nat:
  assumes "n < 2 ^ 53"
  shows "round_double (of_nat n) = Finite (of_nat n)"
proof (cases "n = 0")
  case True
  then show ?thesis by (simp add: round_double_def)
next
  case False
  let ?x = "of_nat n :: rat"
  let ?e = "binary_exponent ?x"
  have pos: "0 < ?x" using False by simp
  have one: "1 \<le> ?x" using False by (simp add: Suc_leI)
  have lt: "?x < 2 ^ 53"
  proof -
    have "?x < of_nat (2 ^ 53)" using assms by (simp only: of_nat_less_iff)
    then show ?thesis by simp
  qed
  note b = binary_exponent_bounds[OF pos]
  have e0: "0 \<le> ?e"
  proof (rule ccontr)
    assume "\<not> 0 \<le> ?e"
    then have "?e + 1 \<le> 0" by simp
    then have "(2::rat) powi (?e + 1) \<le> 2 powi 0" by (intro power_int_increasing) auto
    with b(2) one show False by simp
  qed
  have e52: "?e \<le> 52"
  proof (rule ccontr)
    assume "\<not> ?e \<le> 52"
    then have "53 \<le> ?e" by simp
    then have "(2::rat) powi 53 \<le> 2 powi ?e" by (intro power_int_increasing) auto
    with b(1) lt show False by simp
  qed
  have q: "quantum_exponent ?x = ?e - 52" using e0 by (simp add: quantum_exponent_def)
  let ?k = "nat (52 - ?e)"
  have p: "(2::rat) powi (?e - 52) = 1 / 2 ^ ?k"
    using e52 by (simp add: power_int_def field_simps)
  have s: "?x / 2 powi quantum_exponent ?x = of_int (int n * 2 ^ ?k)"
    unfolding q p by simp
  have sg: "significand ?x = int n * 2 ^ ?k"
    unfolding significand_def s by (rule round_half_even_of_int)
  have r: "of_int (significand ?x) * 2 powi quantum_exponent ?x = ?x"
    unfolding sg q p by simp
  show ?thesis using pos e52 by (simp add: round_double_def r)
qed

text \<open>A number of \<open>2^1024\<close> or more has no double and becomes infinity.\<close>

lemma round_double_overflow:
  assumes "2 ^ 1024 \<le> x"
  shows "round_double x = Infinity"
proof -
  have pos: "0 < x"
  proof -
    have p: "(0::rat) < 2 ^ 1024" by simp
    show ?thesis using p assms by (rule less_le_trans)
  qed
  have "1024 \<le> binary_exponent x"
  proof (rule ccontr)
    assume "\<not> 1024 \<le> binary_exponent x"
    then have "binary_exponent x + 1 \<le> 1024" by simp
    then have "(2::rat) powi (binary_exponent x + 1) \<le> 2 powi 1024"
      by (intro power_int_increasing) auto
    with binary_exponent_bounds(2)[OF pos] have "x < 2 powi 1024" by simp
    with assms show False by simp
  qed
  with pos show ?thesis by (simp add: round_double_def)
qed

section \<open>The recency window\<close>

lemma float_le_lt: "float_le a b = (float_lt a b \<or> a = b)"
  by (cases a; cases b) auto

lemmas convert_eval =
  convert_to_days_def cleaned_posted_time_def strip_def re_match_time_def Let_def lower_def
  lower_char_def isupper_def isspace_def isdigit_def nat_of_digits_def digit_value_def

lemma convert_to_days_values:
  "convert_to_days ''1d'' = Finite 1"
  "convert_to_days ''Posted 1d ago'' = Finite 1"
  "convert_to_days ''Posted 2d ago'' = Finite 2"
  "convert_to_days ''Posted 3h ago'' = Finite (1 / 8)"
  by code_simp+

text \<open>
  C3.  When the age of the job equals the finite age of the limit, v3 and v4 accept the
  job and v7 rejects it; when the two ages differ, or no limit is given, the three
  versions decide alike.
\<close>

theorem is_within_time_limit_boundary:
  "(convert_to_days posting = convert_to_days limit \<and> convert_to_days limit = Finite q \<longrightarrow>
      is_within_time_limit_v3 posting (Some limit)
      \<and> is_within_time_limit_v4 posting (Some limit)
      \<and> \<not> is_within_time_limit posting (Some limit))
   \<and> ((case time_limit of
          None \<Rightarrow> True
        | Some l \<Rightarrow> convert_to_days posting \<noteq> convert_to_days l) \<longrightarrow>
      is_within_time_limit_v3 posting time_limit = is_within_time_limit posting time_limit
      \<and> is_within_time_limit_v4 posting time_limit = is_within_time_limit posting time_limit)"
proof (intro conjI impI)
  assume a: "convert_to_days posting = convert_to_days limit \<and> convert_to_days limit = Finite q"
  then have ne: "limit \<noteq> []" by (auto simp add: convert_to_days_def)
  from a ne show "is_within_time_limit_v3 posting (Some limit)"
    by (simp add: is_within_time_limit_v3_def)
  from a ne show "is_within_time_limit_v4 posting (Some limit)"
    by (simp add: is_within_time_limit_v4_def)
  from a ne show "\<not> is_within_time_limit posting (Some limit)"
    by (simp add: is_within_time_limit_def)
next
  assume "case time_limit of None \<Rightarrow> True
          | Some l \<Rightarrow> convert_to_days posting \<noteq> convert_to_days l"
  then show "is_within_time_limit_v3 posting time_limit = is_within_time_limit posting time_limit"
    by (auto simp add: is_within_time_limit_v3_def is_within_time_limit_def float_le_lt
        split: option.splits)
next
  assume "case time_limit of None \<Rightarrow> True
          | Some l \<Rightarrow> convert_to_days posting \<noteq> convert_to_days l"
  then show "is_within_time_limit_v4 posting time_limit = is_within_time_limit posting time_limit"
    by (auto simp add: is_within_time_limit_v4_def is_within_time_limit_def float_le_lt
        split: option.splits)
qed

theorem is_within_time_limit_boundary_witness:
  "is_within_time_limit_v3 ''Posted 1d ago'' (Some ''1d'')
   \<and> is_within_time_limit_v4 ''Posted 1d ago'' (Some ''1d'')
   \<and> \<not> is_within_time_limit ''Posted 1d ago'' (Some ''1d'')
   \<and> is_within_time_limit_v3 ''Posted 3h ago'' (Some ''1d'')
       = is_within_time_limit ''Posted 3h ago'' (Some ''1d'')
   \<and> is_within_time_limit_v4 ''Posted 3h ago'' (Some ''1d'')
       = is_within_time_limit ''Posted 3h ago'' (Some ''1d'')"
proof -
  have a: "convert_to_days ''Posted 1d ago'' = Finite 1" by (rule convert_to_days_values(2))
  have b: "convert_to_days ''1d'' = Finite 1" by (rule convert_to_days_values(1))
  have c: "convert_to_days ''Posted 3h ago'' = Finite (1 / 8)" by (rule convert_to_days_values(4))
  show ?thesis
    using is_within_time_limit_boundary [of "''Posted 1d ago''" "''1d''" 1 None]
      is_within_time_limit_boundary [of "''Posted 3h ago''" "''1d''" 1 "Some ''1d''"]
    by (simp add: a b c)
qed

section \<open>Parsing a relative time\<close>

lemma isspace_not_isdigit: "isspace c \<Longrightarrow> \<not> isdigit c"
  by (auto simp add: isspace_def isdigit_def)

lemma isdigit_not_isupper: "isdigit c \<Longrightarrow> \<not> isupper c"
  by (auto simp add: isupper_def isdigit_def Let_def)

lemma lower_digits: "\<forall>c\<in>set ds. isdigit c \<Longrightarrow> lower ds = ds"
  by (induction ds) (auto simp add: lower_def lower_char_def isdigit_not_isupper)

lemma unit_facts:
  "u \<in> set ''mhd'' \<Longrightarrow> \<not> isdigit u \<and> \<not> isspace u \<and> lower_char u = u"
  by (auto simp add: isdigit_def isspace_def lower_char_def isupper_def)

lemma re_match_time_shape:
  assumes "ds \<noteq> []" "\<forall>c\<in>set ds. isdigit c" "\<forall>c\<in>set ws. isspace c" "u \<in> set ''mhd''"
  shows "re_match_time (ds @ ws @ u # rest) = Some (ds, u)"
proof -
  from assms(4) have u: "\<not> isdigit u" "\<not> isspace u" using unit_facts by blast+
  have "ws @ u # rest \<noteq> []" by simp
  then obtain y ys where y: "ws @ u # rest = y # ys" by (cases "ws @ u # rest") auto
  have ny: "\<not> isdigit y"
  proof (cases ws)
    case Nil
    with y u show ?thesis by simp
  next
    case (Cons w ws')
    with y assms(3) show ?thesis by (auto simp add: isspace_not_isdigit)
  qed
  have t: "takeWhile isdigit (ds @ ws @ u # rest) = ds"
    unfolding y using assms(2) ny by (rule takeWhile_run)
  have d: "dropWhile isdigit (ds @ ws @ u # rest) = ws @ u # rest"
    unfolding y using assms(2) ny by (rule dropWhile_run)
  have d2: "dropWhile isspace (ws @ u # rest) = u # rest"
    using assms(3) u(2) by (rule dropWhile_run)
  show ?thesis
    unfolding re_match_time_def Let_def t d d2 using assms(1,4) by simp
qed

lemma re_match_time_Some:
  assumes "re_match_time s = Some (ds, u)"
  shows "\<exists>ws rest. s = ds @ ws @ u # rest \<and> ds \<noteq> [] \<and> (\<forall>c\<in>set ds. isdigit c)
           \<and> (\<forall>c\<in>set ws. isspace c) \<and> u \<in> set ''mhd''"
proof -
  let ?r = "dropWhile isdigit s"
  from assms have ds: "ds = takeWhile isdigit s" "ds \<noteq> []"
    by (auto simp add: re_match_time_def Let_def split: if_splits list.splits)
  from assms obtain rest where r: "dropWhile isspace ?r = u # rest" and u: "u \<in> set ''mhd''"
    by (auto simp add: re_match_time_def Let_def split: if_splits list.splits)
  have "s = takeWhile isdigit s @ ?r" by simp
  also have "?r = takeWhile isspace ?r @ dropWhile isspace ?r" by simp
  finally have "s = ds @ takeWhile isspace ?r @ u # rest" using ds r by simp
  moreover have "\<forall>c\<in>set ds. isdigit c" using ds by (auto dest: set_takeWhileD)
  moreover have "\<forall>c\<in>set (takeWhile isspace ?r). isspace c" by (auto dest: set_takeWhileD)
  ultimately show ?thesis using ds(2) u by blast
qed

lemma re_match_time_None_iff:
  "re_match_time s = None \<longleftrightarrow>
     \<not> (\<exists>ds ws u rest. s = ds @ ws @ u # rest \<and> ds \<noteq> [] \<and> (\<forall>c\<in>set ds. isdigit c)
           \<and> (\<forall>c\<in>set ws. isspace c) \<and> u \<in> set ''mhd'')"
proof
  assume n: "re_match_time s = None"
  show "\<not> (\<exists>ds ws u rest. s = ds @ ws @ u # rest \<and> ds \<noteq> [] \<and> (\<forall>c\<in>set ds. isdigit c)
           \<and> (\<forall>c\<in>set ws. isspace c) \<and> u \<in> set ''mhd'')"
  proof
    assume "\<exists>ds ws u rest. s = ds @ ws @ u # rest \<and> ds \<noteq> [] \<and> (\<forall>c\<in>set ds. isdigit c)
           \<and> (\<forall>c\<in>set ws. isspace c) \<and> u \<in> set ''mhd''"
    then obtain ds ws u rest where "s = ds @ ws @ u # rest" "ds \<noteq> []" "\<forall>c\<in>set ds. isdigit c"
      "\<forall>c\<in>set ws. isspace c" "u \<in> set ''mhd''" by blast
    then have "re_match_time s = Some (ds, u)" using re_match_time_shape by blast
    with n show False by simp
  qed
next
  assume a: "\<not> (\<exists>ds ws u rest. s = ds @ ws @ u # rest \<and> ds \<noteq> [] \<and> (\<forall>c\<in>set ds. isdigit c)
           \<and> (\<forall>c\<in>set ws. isspace c) \<and> u \<in> set ''mhd'')"
  show "re_match_time s = None"
  proof (cases "re_match_time s")
    case None
    then show ?thesis .
  next
    case (Some p)
    obtain ds u where "p = (ds, u)" by (cases p)
    with Some have "re_match_time s = Some (ds, u)" by simp
    from re_match_time_Some[OF this] a show ?thesis by blast
  qed
qed


text \<open>
  C6.  An empty posting time, one that contains \<open>not found\<close>, and one whose cleaned form
  (lower-cased, every \<open>posted\<close> removed, white space stripped at both ends) does not
  begin with digits, optional white space and one of \<open>m\<close>, \<open>h\<close>, \<open>d\<close>, all convert to
  infinity.  Such a job is within no limit whose age is finite, in any of the three
  versions; and without a limit (\<open>None\<close> or the empty string) every job is within it.
\<close>

theorem convert_to_days_sentinel:
  "((posting = [] \<or> py_in ''not found'' posting
      \<or> \<not> (\<exists>ds ws u rest. cleaned_posted_time posting = ds @ ws @ u # rest \<and> ds \<noteq> []
              \<and> (\<forall>c\<in>set ds. isdigit c) \<and> (\<forall>c\<in>set ws. isspace c) \<and> u \<in> set ''mhd''))
     \<longrightarrow> convert_to_days posting = Infinity
         \<and> (\<forall>limit q. convert_to_days limit = Finite q \<longrightarrow>
               \<not> is_within_time_limit posting (Some limit)
               \<and> \<not> is_within_time_limit_v3 posting (Some limit)
               \<and> \<not> is_within_time_limit_v4 posting (Some limit)))
   \<and> is_within_time_limit any_posting None \<and> is_within_time_limit any_posting (Some [])
   \<and> is_within_time_limit_v3 any_posting None \<and> is_within_time_limit_v3 any_posting (Some [])
   \<and> is_within_time_limit_v4 any_posting None \<and> is_within_time_limit_v4 any_posting (Some [])"
proof (intro conjI impI)
  assume h: "posting = [] \<or> py_in ''not found'' posting
      \<or> \<not> (\<exists>ds ws u rest. cleaned_posted_time posting = ds @ ws @ u # rest \<and> ds \<noteq> []
              \<and> (\<forall>c\<in>set ds. isdigit c) \<and> (\<forall>c\<in>set ws. isspace c) \<and> u \<in> set ''mhd'')"
  then have "posting = [] \<or> py_in ''not found'' posting
      \<or> re_match_time (cleaned_posted_time posting) = None"
    unfolding re_match_time_None_iff by blast
  then show inf: "convert_to_days posting = Infinity"
    by (auto simp add: convert_to_days_def)
  show "\<forall>limit q. convert_to_days limit = Finite q \<longrightarrow>
               \<not> is_within_time_limit posting (Some limit)
               \<and> \<not> is_within_time_limit_v3 posting (Some limit)
               \<and> \<not> is_within_time_limit_v4 posting (Some limit)"
  proof (intro allI impI)
    fix limit q
    assume f: "convert_to_days limit = Finite q"
    then have "limit \<noteq> []" by (auto simp add: convert_to_days_def)
    with f inf show "\<not> is_within_time_limit posting (Some limit)
               \<and> \<not> is_within_time_limit_v3 posting (Some limit)
               \<and> \<not> is_within_time_limit_v4 posting (Some limit)"
      by (simp add: is_within_time_limit_def is_within_time_limit_v3_def
          is_within_time_limit_v4_def)
  qed
qed (simp_all add: is_within_time_limit_def is_within_time_limit_v3_def
      is_within_time_limit_v4_def)

theorem convert_to_days_sentinel_witness:
  "convert_to_days [] = Infinity
   \<and> convert_to_days ''garbled'' = Infinity
   \<and> convert_to_days ''Posting time not found'' = Infinity
   \<and> \<not> is_within_time_limit ''garbled'' (Some ''1d'')
   \<and> \<not> is_within_time_limit_v3 ''garbled'' (Some ''1d'')
   \<and> is_within_time_limit ''garbled'' None"
proof -
  have g: "re_match_time (cleaned_posted_time ''garbled'') = None" by (simp add: convert_eval)
  have l: "convert_to_days ''1d'' = Finite 1" by (rule convert_to_days_values(1))
  have nf: "py_in ''not found'' ''Posting time not found''" by simp
  show ?thesis
    using convert_to_days_sentinel [of "[]" "''garbled''"] convert_to_days_sentinel [of "''Posting time not found''" "''garbled''"]
      convert_to_days_sentinel [of "''garbled''" "''garbled''"] g [unfolded re_match_time_None_iff] l nf
    by blast
qed

section \<open>The age in days\<close>

lemma py_in_set: "py_in sub s \<Longrightarrow> set sub \<subseteq> set s"
proof (induction s)
  case Nil
  then show ?case by simp
next
  case (Cons c cs)
  then show ?case using set_mono_prefix by fastforce
qed

lemma py_replace_absent: "a \<notin> set s \<Longrightarrow> py_replace (a # as) new s = s"
  by (induction s) auto

lemma strip_run:
  assumes "\<forall>c\<in>set ws. isspace c" "\<not> isspace x" "\<not> isspace (last (x # xs))"
  shows "strip (ws @ x # xs) = x # xs"
proof -
  have a: "dropWhile isspace (ws @ x # xs) = x # xs"
    using assms(1,2) by (rule dropWhile_run)
  have "rev (x # xs) \<noteq> []" by simp
  moreover have "hd (rev (x # xs)) = last (x # xs)" by (rule hd_rev)
  ultimately have "dropWhile isspace (rev (x # xs)) = rev (x # xs)"
    using assms(3) by (cases "rev (x # xs)") auto
  then show ?thesis unfolding strip_def a by simp
qed

lemma digit_facts: "isdigit c \<Longrightarrow> \<not> isspace c \<and> c \<noteq> CHR ''n'' \<and> c \<noteq> CHR ''p''"
  by (auto simp add: isdigit_def isspace_def)

text \<open>The days of a bare expression such as \<open>5m\<close>.\<close>

lemma convert_to_days_bare:
  assumes "ds \<noteq> []" "\<forall>c\<in>set ds. isdigit c" "u \<in> set ''mhd''"
  shows "convert_to_days (ds @ [u]) =
     (if u = CHR ''m'' then float_div (round_double (of_nat (nat_of_digits ds))) 1440
      else if u = CHR ''h'' then float_div (round_double (of_nat (nat_of_digits ds))) 24
      else round_double (of_nat (nat_of_digits ds)))"
proof -
  obtain d ds' where ds: "ds = d # ds'" using assms(1) by (cases ds) auto
  have dg: "\<forall>c\<in>set ds. \<not> isspace c \<and> c \<noteq> CHR ''n'' \<and> c \<noteq> CHR ''p''"
    using assms(2) digit_facts by blast
  have nf: "\<not> py_in ''not found'' (ds @ [u])"
  proof
    assume "py_in ''not found'' (ds @ [u])"
    then have "CHR ''n'' \<in> set (ds @ [u])" using py_in_set by fastforce
    with dg assms(3) show False by auto
  qed
  have lo: "lower (ds @ [u]) = ds @ [u]"
    using lower_digits[OF assms(2)] unit_facts[OF assms(3)] by (simp add: lower_def)
  have "CHR ''p'' \<notin> set (ds @ [u])" using dg assms(3) by auto
  then have rp: "py_replace ''posted'' [] (ds @ [u]) = ds @ [u]" by (rule py_replace_absent)
  have "strip ([] @ d # (ds' @ [u])) = d # (ds' @ [u])"
    using dg ds unit_facts[OF assms(3)] by (intro strip_run) auto
  then have st: "strip (ds @ [u]) = ds @ [u]" using ds by simp
  have cl: "cleaned_posted_time (ds @ [u]) = ds @ [] @ u # []"
    by (simp add: cleaned_posted_time_def lo rp st)
  have m: "re_match_time (cleaned_posted_time (ds @ [u])) = Some (ds, u)"
    unfolding cl using assms by (intro re_match_time_shape) auto
  show ?thesis using nf m assms(3) by (auto simp add: convert_to_days_def Let_def)
qed

text \<open>The days of an expression as the site prints it, such as \<open>Posted 5m ago\<close>.\<close>

lemma convert_to_days_posted:
  assumes "ds \<noteq> []" "\<forall>c\<in>set ds. isdigit c" "u \<in> set ''mhd''"
  shows "convert_to_days (''Posted '' @ ds @ u # '' ago'') =
     (if u = CHR ''m'' then float_div (round_double (of_nat (nat_of_digits ds))) 1440
      else if u = CHR ''h'' then float_div (round_double (of_nat (nat_of_digits ds))) 24
      else round_double (of_nat (nat_of_digits ds)))"
proof -
  let ?p = "''Posted '' @ ds @ u # '' ago''"
  obtain d ds' where ds: "ds = d # ds'" using assms(1) by (cases ds) auto
  have dg: "\<forall>c\<in>set ds. \<not> isspace c \<and> c \<noteq> CHR ''n'' \<and> c \<noteq> CHR ''p''"
    using assms(2) digit_facts by blast
  have nf: "\<not> py_in ''not found'' ?p"
  proof
    assume "py_in ''not found'' ?p"
    then have "set ''not found'' \<subseteq> set ?p" by (rule py_in_set)
    then have "CHR ''n'' \<in> set ?p" by auto
    with dg assms(3) show False by auto
  qed
  have lo: "lower ?p = ''posted '' @ ds @ u # '' ago''"
    using lower_digits[OF assms(2)] unit_facts[OF assms(3)]
    by (simp add: lower_def lower_char_def isupper_def)
  have "CHR ''p'' \<notin> set ('' '' @ ds @ u # '' ago'')" using dg assms(3) by auto
  then have "py_replace ''posted'' [] ('' '' @ ds @ u # '' ago'') = '' '' @ ds @ u # '' ago''"
    by (rule py_replace_absent)
  then have rp: "py_replace ''posted'' [] (''posted '' @ ds @ u # '' ago'')
      = '' '' @ ds @ u # '' ago''" by simp
  have "strip ('' '' @ d # (ds' @ u # '' ago'')) = d # (ds' @ u # '' ago'')"
    using dg ds by (intro strip_run) (auto simp add: isspace_def)
  then have st: "strip ('' '' @ ds @ u # '' ago'') = ds @ u # '' ago''" using ds by simp
  have cl: "cleaned_posted_time ?p = ds @ [] @ u # '' ago''"
    by (simp only: cleaned_posted_time_def lo rp st append_Nil)
  have m: "re_match_time (cleaned_posted_time ?p) = Some (ds, u)"
    unfolding cl using assms by (intro re_match_time_shape) auto
  show ?thesis using nf m assms(3) by (auto simp add: convert_to_days_def Let_def)
qed


lemma float_le_unit:
  assumes "float_le v v'" "\<And>r. v = Finite r \<Longrightarrow> 0 \<le> r"
  shows "float_le
     (if u = CHR ''m'' then float_div v 1440 else if u = CHR ''h'' then float_div v 24 else v)
     (if u = CHR ''m'' then float_div v' 1440 else if u = CHR ''h'' then float_div v' 24 else v')"
  using assms float_div_mono[of v v' 1440] float_div_mono[of v v' 24] by auto

text \<open>
  C8.  For one unit, digits that denote a larger or equal number give a larger or equal
  age, for the bare expression and for the expression as the site prints it.  The age is
  the double of the number, divided in doubles by 1440 for minutes and by 24 for hours,
  and kept for days; a number of days below \<open>2^53\<close> is its own double.  And
  \<open>5m\<close> < \<open>1h\<close> < \<open>1d\<close> < \<open>2d\<close>.
\<close>

theorem convert_to_days_monotone:
  "(ds \<noteq> [] \<and> ds' \<noteq> [] \<and> (\<forall>c\<in>set ds. isdigit c) \<and> (\<forall>c\<in>set ds'. isdigit c)
      \<and> u \<in> set ''mhd'' \<and> nat_of_digits ds \<le> nat_of_digits ds' \<longrightarrow>
      float_le (convert_to_days (ds @ [u])) (convert_to_days (ds' @ [u]))
      \<and> float_le (convert_to_days (''Posted '' @ ds @ u # '' ago''))
          (convert_to_days (''Posted '' @ ds' @ u # '' ago'')))
   \<and> (ds \<noteq> [] \<and> (\<forall>c\<in>set ds. isdigit c) \<longrightarrow>
      convert_to_days (ds @ ''m'')
        = float_div (round_double (of_nat (nat_of_digits ds))) 1440
      \<and> convert_to_days (ds @ ''h'')
        = float_div (round_double (of_nat (nat_of_digits ds))) 24
      \<and> convert_to_days (ds @ ''d'') = round_double (of_nat (nat_of_digits ds)))
   \<and> (ds \<noteq> [] \<and> (\<forall>c\<in>set ds. isdigit c) \<and> nat_of_digits ds < 2 ^ 53 \<longrightarrow>
      convert_to_days (ds @ ''d'') = Finite (of_nat (nat_of_digits ds)))
   \<and> float_lt (convert_to_days ''5m'') (convert_to_days ''1h'')
   \<and> float_lt (convert_to_days ''1h'') (convert_to_days ''1d'')
   \<and> float_lt (convert_to_days ''1d'') (convert_to_days ''2d'')"
proof (intro conjI impI)
  assume a: "ds \<noteq> [] \<and> ds' \<noteq> [] \<and> (\<forall>c\<in>set ds. isdigit c) \<and> (\<forall>c\<in>set ds'. isdigit c)
      \<and> u \<in> set ''mhd'' \<and> nat_of_digits ds \<le> nat_of_digits ds'"
  let ?v = "round_double (of_nat (nat_of_digits ds))"
  let ?v' = "round_double (of_nat (nat_of_digits ds'))"
  from a have "(of_nat (nat_of_digits ds) :: rat) \<le> of_nat (nat_of_digits ds')" by simp
  then have v: "float_le ?v ?v'" by (intro round_double_mono) auto
  have nn: "\<And>r. ?v = Finite r \<Longrightarrow> 0 \<le> r" by (rule round_double_nonneg)
  note le = float_le_unit[of ?v ?v' u, OF v nn]
  from a have b1: "convert_to_days (ds @ [u]) =
      (if u = CHR ''m'' then float_div ?v 1440 else if u = CHR ''h'' then float_div ?v 24 else ?v)"
    by (intro convert_to_days_bare) auto
  from a have b2: "convert_to_days (ds' @ [u]) =
      (if u = CHR ''m'' then float_div ?v' 1440 else if u = CHR ''h'' then float_div ?v' 24
       else ?v')"
    by (intro convert_to_days_bare) auto
  from a have p1: "convert_to_days (''Posted '' @ ds @ u # '' ago'') =
      (if u = CHR ''m'' then float_div ?v 1440 else if u = CHR ''h'' then float_div ?v 24 else ?v)"
    by (intro convert_to_days_posted) auto
  from a have p2: "convert_to_days (''Posted '' @ ds' @ u # '' ago'') =
      (if u = CHR ''m'' then float_div ?v' 1440 else if u = CHR ''h'' then float_div ?v' 24
       else ?v')"
    by (intro convert_to_days_posted) auto
  show "float_le (convert_to_days (ds @ [u])) (convert_to_days (ds' @ [u]))"
    unfolding b1 b2 by (rule le)
  show "float_le (convert_to_days (''Posted '' @ ds @ u # '' ago''))
          (convert_to_days (''Posted '' @ ds' @ u # '' ago''))"
    unfolding p1 p2 by (rule le)
next
  assume a: "ds \<noteq> [] \<and> (\<forall>c\<in>set ds. isdigit c)"
  show "convert_to_days (ds @ ''m'') = float_div (round_double (of_nat (nat_of_digits ds))) 1440"
    using a convert_to_days_bare[of ds "CHR ''m''"] by simp
  show "convert_to_days (ds @ ''h'') = float_div (round_double (of_nat (nat_of_digits ds))) 24"
    using a convert_to_days_bare[of ds "CHR ''h''"] by simp
  show "convert_to_days (ds @ ''d'') = round_double (of_nat (nat_of_digits ds))"
    using a convert_to_days_bare[of ds "CHR ''d''"] by simp
next
  assume a: "ds \<noteq> [] \<and> (\<forall>c\<in>set ds. isdigit c) \<and> nat_of_digits ds < 2 ^ 53"
  then have "convert_to_days (ds @ ''d'') = round_double (of_nat (nat_of_digits ds))"
    using convert_to_days_bare[of ds "CHR ''d''"] by simp
  also have "\<dots> = Finite (of_nat (nat_of_digits ds))"
    using a by (intro round_double_of_nat) simp
  finally show "convert_to_days (ds @ ''d'') = Finite (of_nat (nat_of_digits ds))" .
next
  show "float_lt (convert_to_days ''5m'') (convert_to_days ''1h'')" by code_simp
next
  show "float_lt (convert_to_days ''1h'') (convert_to_days ''1d'')" by code_simp
next
  show "float_lt (convert_to_days ''1d'') (convert_to_days ''2d'')" by code_simp
qed

text \<open>
  The witness: three hours against twelve, and thirty minutes, hours and days.  Thirty
  minutes are the double nearest to 1/48, which is a little below it.
\<close>

theorem convert_to_days_monotone_witness:
  "float_le (convert_to_days ''3h'') (convert_to_days ''12h'')
   \<and> float_le (convert_to_days ''Posted 3h ago'') (convert_to_days ''Posted 12h ago'')
   \<and> convert_to_days ''30m'' = Finite (6004799503160661 / 288230376151711744)
   \<and> convert_to_days ''30h'' = Finite (5 / 4)
   \<and> convert_to_days ''30d'' = Finite 30"
proof -
  have d: "''3'' \<noteq> [] \<and> ''12'' \<noteq> [] \<and> (\<forall>c\<in>set ''3''. isdigit c) \<and> (\<forall>c\<in>set ''12''. isdigit c)
      \<and> CHR ''h'' \<in> set ''mhd'' \<and> nat_of_digits ''3'' \<le> nat_of_digits ''12''"
    by (simp add: isdigit_def nat_of_digits_def digit_value_def)
  have e: "''30'' \<noteq> [] \<and> (\<forall>c\<in>set ''30''. isdigit c)" by (simp add: isdigit_def)
  have n: "nat_of_digits ''30'' = 30" by (simp add: nat_of_digits_def digit_value_def)
  have v: "float_div (round_double (of_nat 30)) 1440
             = Finite (6004799503160661 / 288230376151711744)"
    "float_div (round_double (of_nat 30)) 24 = Finite (5 / 4)"
    "round_double (of_nat 30) = Finite 30"
    by code_simp+
  have r1: "float_le (convert_to_days ''3h'') (convert_to_days ''12h'')
      \<and> float_le (convert_to_days ''Posted 3h ago'') (convert_to_days ''Posted 12h ago'')"
    using convert_to_days_monotone [of "''3''" "''12''" "CHR ''h''", THEN conjunct1, THEN mp, OF d]
    by simp
  note t = convert_to_days_monotone [of "''30''" "''30''" "CHR ''h''", THEN conjunct2,
      THEN conjunct1, THEN mp, OF e]
  have t1: "convert_to_days ''30m'' = float_div (round_double (of_nat (nat_of_digits ''30''))) 1440"
    using t by simp
  have t2: "convert_to_days ''30h'' = float_div (round_double (of_nat (nat_of_digits ''30''))) 24"
    using t by simp
  have t3: "convert_to_days ''30d'' = round_double (of_nat (nat_of_digits ''30''))"
    using t by simp
  have r2: "convert_to_days ''30m'' = Finite (6004799503160661 / 288230376151711744)"
    by (rule trans[OF t1[unfolded n] v(1)])
  have r3: "convert_to_days ''30h'' = Finite (5 / 4)"
    by (rule trans[OF t2[unfolded n] v(2)])
  have r4: "convert_to_days ''30d'' = Finite 30"
    by (rule trans[OF t3[unfolded n] v(3)])
  from r1 r2 r3 r4 show ?thesis by blast
qed

text \<open>
  Where the double differs from the exact number: \<open>2^53 + 1\<close> days are \<open>2^53\<close> days, and
  thirty minutes are a little less than 1/48 of a day.
\<close>

lemma round_double_examples:
  "round_double 9007199254740993 = Finite 9007199254740992"
  "round_double (30 / 1440) = Finite (6004799503160661 / 288230376151711744)"
  by code_simp+

section \<open>Limits of zero\<close>

lemma for_cards_zero:
  "for_cards sc (Some 0) ptl cards st = for_cards sc None ptl cards st"
  by (induction sc "None :: int option" ptl cards st rule: for_cards.induct)
     (auto simp add: limit_reached_def split: option.splits prod.splits)

lemma scrape_pages_zero_jobs:
  "scrape_pages fuel sc (Some 0) mp ptl cu cp st = scrape_pages fuel sc None mp ptl cu cp st"
  by (induction fuel arbitrary: cu cp st)
     (auto simp add: for_cards_zero split: prod.splits sum.splits option.splits flow.splits)

lemma scrape_pages_zero_pages:
  "scrape_pages fuel sc nj (Some 0) ptl cu cp st = scrape_pages fuel sc nj None ptl cu cp st"
  by (induction fuel arbitrary: cu cp st)
     (auto simp add: limit_reached_def split: prod.splits sum.splits option.splits flow.splits)

text \<open>
  C10.  With \<open>num_jobs = 0\<close> the run is the run without a limit on the jobs, and with
  \<open>max_pages = 0\<close> it is the run without a limit on the pages, whatever the fuel, the
  network and the other arguments are.
\<close>

theorem scrape_jobs_zero_limits:
  "scrape_jobs fuel sc search_url (Some 0) max_pages ptl reqs
     = scrape_jobs fuel sc search_url None max_pages ptl reqs
   \<and> scrape_jobs fuel sc search_url num_jobs (Some 0) ptl reqs
     = scrape_jobs fuel sc search_url num_jobs None ptl reqs"
  by (simp add: scrape_jobs_def scrape_pages_zero_jobs scrape_pages_zero_pages)

section \<open>Running the model on the job board\<close>

lemma range_3: "[0..<3] = [0, 1, 2]"
  by (simp add: upt_rec)

lemmas board_eval =
  range_3 fetch_page_def fetch_with_aiohttp_def fetch_with_selenium_def
  extract_job_details_def limit_reached_def
  results_page_def link_card_def blank_page_def board_cards_def board_document_def
  board_browser_def board_session_def


section \<open>A page that cannot be fetched\<close>

text \<open>
  When \<open>fetch_page\<close> gives up by returning \<open>None\<close>, the loop is left through \<open>break\<close>
  with the state as it is; when it gives up by raising, the exception leaves the loop.
\<close>

lemma scrape_pages_fetch_exhausted:
  "fetch_page sc current_url 3 (requests st) = (Inr None, r) \<Longrightarrow>
     scrape_pages (Suc fuel) sc num_jobs max_pages ptl current_url current_page st
       = Some (None, st\<lparr>requests := r\<rparr>)"
  by simp

lemma scrape_pages_fetch_raised:
  "fetch_page sc current_url 3 (requests st) = (Inl e, r) \<Longrightarrow>
     scrape_pages (Suc fuel) sc num_jobs max_pages ptl current_url current_page st
       = Some (Some e, st\<lparr>requests := r\<rparr>)"
  by simp

text \<open>
  C2.  On the job board the five jobs of the first page are collected and the second
  page cannot be fetched.  Through the HTTP session the third attempt raises, the
  exception reaches the handler of \<open>scrape_jobs\<close>, and the result is the empty list: the
  five jobs are lost.  Through the browser driver the same run returns the five jobs.
\<close>

theorem scrape_jobs_fetch_raise_drops_results:
  "map_option (\<lambda>(e, st). (e, length (all_jobs_data st)))
     (scrape_pages 2 board_session None None None ''https://www.seek.com.au/jobs'' 1
        \<lparr>all_jobs_data = [], jobs_scraped = 0, requests = []\<rparr>)
     = Some (Some TransportError, 5)
   \<and> map_option fst (scrape_jobs 2 board_session ''https://www.seek.com.au/jobs'' None None None [])
     = Some []
   \<and> map_option (length \<circ> fst)
       (scrape_jobs 2 board_browser ''https://www.seek.com.au/jobs'' None None None [])
     = Some 5"
  by (simp add: board_eval scrape_jobs_def outside_time_limit_def numeral_2_eq_2)


section \<open>The limit on the number of jobs\<close>

lemma for_cards_bound:
  assumes "0 < n"
  shows "jobs_scraped st = int (length (all_jobs_data st)) \<and> jobs_scraped st \<le> n \<Longrightarrow>
    jobs_scraped (flow_state (for_cards sc (Some n) ptl cards st))
      = int (length (all_jobs_data (flow_state (for_cards sc (Some n) ptl cards st))))
    \<and> jobs_scraped (flow_state (for_cards sc (Some n) ptl cards st)) \<le> n"
proof (induction cards arbitrary: st)
  case Nil
  then show ?case by simp
next
  case (Cons c cards)
  show ?case
  proof (cases "limit_reached (Some n) (jobs_scraped st)")
    case True
    with Cons.prems show ?thesis by simp
  next
    case False
    then have lt: "jobs_scraped st < n" using assms by (simp add: limit_reached_def)
    show ?thesis
    proof (cases "card_link c")
      case None
      from Cons.IH[OF Cons.prems] False None show ?thesis by simp
    next
      case (Some job_url)
      obtain d r where d: "detail_attempts sc job_url [0..<3] (requests st) = (d, r)"
        by (cases "detail_attempts sc job_url [0..<3] (requests st)")
      show ?thesis
      proof (cases d)
        case None
        have "jobs_scraped (st\<lparr>requests := r\<rparr>) = int (length (all_jobs_data (st\<lparr>requests := r\<rparr>)))
            \<and> jobs_scraped (st\<lparr>requests := r\<rparr>) \<le> n" using Cons.prems by simp
        from Cons.IH[OF this] False Some d None show ?thesis by simp
      next
        case (Some j)
        note j = this
        show ?thesis
        proof (cases "outside_time_limit (posting_time j) ptl")
          case True
          with False \<open>card_link c = Some job_url\<close> d j Cons.prems show ?thesis by simp
        next
          case out: False
          let ?st = "st\<lparr>all_jobs_data := all_jobs_data st @ [j],
                       jobs_scraped := jobs_scraped st + 1, requests := r\<rparr>"
          have "jobs_scraped ?st = int (length (all_jobs_data ?st)) \<and> jobs_scraped ?st \<le> n"
            using Cons.prems lt by simp
          from Cons.IH[OF this] False \<open>card_link c = Some job_url\<close> d j out
          show ?thesis by simp
        qed
      qed
    qed
  qed
qed

lemma scrape_pages_bound:
  assumes "0 < n"
  shows "jobs_scraped st = int (length (all_jobs_data st)) \<and> jobs_scraped st \<le> n \<Longrightarrow>
     scrape_pages fuel sc (Some n) mp ptl cu cp st = Some (e, st') \<Longrightarrow>
     jobs_scraped st' = int (length (all_jobs_data st')) \<and> jobs_scraped st' \<le> n"
proof (induction fuel arbitrary: cu cp st)
  case 0
  then show ?case by simp
next
  case (Suc fuel)
  obtain res r where f: "fetch_page sc cu 3 (requests st) = (res, r)"
    by (cases "fetch_page sc cu 3 (requests st)")
  show ?case
  proof (cases res)
    case (Inl x)
    with f Suc.prems show ?thesis by auto
  next
    case (Inr doc)
    show ?thesis
    proof (cases doc)
      case None
      with f Inr Suc.prems show ?thesis by auto
    next
      case (Some page)
      let ?fl = "for_cards sc (Some n) ptl (job_cards page) (st\<lparr>requests := r\<rparr>)"
      have "jobs_scraped (st\<lparr>requests := r\<rparr>) = int (length (all_jobs_data (st\<lparr>requests := r\<rparr>)))
          \<and> jobs_scraped (st\<lparr>requests := r\<rparr>) \<le> n" using Suc.prems(1) by simp
      from for_cards_bound[OF assms this]
      have inv: "jobs_scraped (flow_state ?fl) = int (length (all_jobs_data (flow_state ?fl)))
          \<and> jobs_scraped (flow_state ?fl) \<le> n" .
      show ?thesis
      proof (cases ?fl)
        case (Return s)
        with f Inr Some Suc.prems(2) inv show ?thesis by auto
      next
        case (Continue s)
        with inv have s: "jobs_scraped s = int (length (all_jobs_data s)) \<and> jobs_scraped s \<le> n"
          by simp
        show ?thesis
        proof (cases "limit_reached mp cp")
          case True
          with f Inr Some Continue Suc.prems(2) s show ?thesis by auto
        next
          case False
          show ?thesis
          proof (cases "page_link page (cp + 1)")
            case None
            with f Inr Some Continue Suc.prems(2) s False show ?thesis by auto
          next
            case (Some next_page_url)
            note nx = this
            show ?thesis
            proof (cases "next_page_url = []")
              case True
              with f Inr \<open>doc = Some page\<close> Continue Suc.prems(2) s False nx show ?thesis by auto
            next
              case ne: False
              with f Inr \<open>doc = Some page\<close> Continue Suc.prems(2) False nx
              have "scrape_pages fuel sc (Some n) mp ptl next_page_url (cp + 1) s = Some (e, st')"
                by simp
              from Suc.IH[OF s this] show ?thesis .
            qed
          qed
        qed
      qed
    qed
  qed
qed


lemma for_cards_append:
  "for_cards sc nj ptl (xs @ ys) st =
     (case for_cards sc nj ptl xs st of
        Continue st' \<Rightarrow> for_cards sc nj ptl ys st'
      | Return st' \<Rightarrow> Return st')"
  by (induction xs arbitrary: st) (auto split: option.splits prod.splits)


lemma for_cards_limit_reached:
  assumes "0 < n" "n \<le> jobs_scraped st"
  shows "for_cards sc (Some n) ptl cards st = (if cards = [] then Continue st else Return st)"
  using assms by (cases cards) (auto simp add: limit_reached_def)


text \<open>
  C4, as the claim states it, fails: the limit is tested only before a card.  On the job
  board with \<open>num_jobs = 5\<close> the limit is reached on the last card of the first page; the
  run does not stop there but requests the second page, three times.  Through the
  browser driver it then returns the five jobs, through the HTTP session it returns
  none.
\<close>

theorem scrape_jobs_stops_at_limit_counterexample:
  "map_option (length \<circ> fst)
       (scrape_jobs 2 board_browser ''https://www.seek.com.au/jobs'' (Some 5) None None [])
     = Some 5
   \<and> map_option snd
       (scrape_jobs 2 board_browser ''https://www.seek.com.au/jobs'' (Some 5) None None [])
     = Some ([''https://www.seek.com.au/jobs'', ''https://www.seek.com.au/job/1'',
              ''https://www.seek.com.au/job/2'', ''https://www.seek.com.au/job/3'',
              ''https://www.seek.com.au/job/4'', ''https://www.seek.com.au/job/5'']
             @ [''https://www.seek.com.au/jobs?page=2'', ''https://www.seek.com.au/jobs?page=2'',
                ''https://www.seek.com.au/jobs?page=2''])
   \<and> scrape_jobs 2 board_session ''https://www.seek.com.au/jobs'' (Some 5) None None []
     = Some ([], [''https://www.seek.com.au/jobs'', ''https://www.seek.com.au/job/1'',
              ''https://www.seek.com.au/job/2'', ''https://www.seek.com.au/job/3'',
              ''https://www.seek.com.au/job/4'', ''https://www.seek.com.au/job/5'',
              ''https://www.seek.com.au/jobs?page=2'', ''https://www.seek.com.au/jobs?page=2'',
              ''https://www.seek.com.au/jobs?page=2''])"
  by (simp add: board_eval scrape_jobs_def outside_time_limit_def numeral_2_eq_2)

text \<open>
  C4, amended.  With a positive \<open>num_jobs\<close> the counter equals the number of collected
  jobs and neither exceeds the limit, in whatever state the loop over the pages ends,
  also when an exception ends it; so the list \<open>scrape_jobs\<close> returns is not longer than
  the limit.  Once the limit is reached, the loop over the cards changes nothing and
  requests nothing, whatever cards it is given, and returns at the first one.  So when
  the limit is reached on a page before a card that is not its first, the loop over the
  pages ends there with the state of that moment.  When it is reached on the last card
  of a page and the page limit and the next link allow it, the run goes on with the next
  page.  And when the first page has five cards, the first three of which have a link,
  give their details and pass the time limit, then \<open>scrape_jobs\<close> with \<open>num_jobs = 3\<close>
  returns with any positive fuel, returns exactly these three jobs, and the last request
  it has sent is the last one made for the third card.
\<close>

theorem scrape_jobs_num_jobs_bound:
  "(0 < n \<and> scrape_pages fuel sc (Some n) max_pages ptl search_url 1
        \<lparr>all_jobs_data = [], jobs_scraped = 0, requests = reqs\<rparr> = Some (e, st) \<longrightarrow>
      jobs_scraped st = int (length (all_jobs_data st)) \<and> int (length (all_jobs_data st)) \<le> n)
   \<and> (0 < n \<and> scrape_jobs fuel sc search_url (Some n) max_pages ptl reqs = Some (jobs, reqs')
        \<longrightarrow> int (length jobs) \<le> n)
   \<and> (0 < n \<and> n \<le> jobs_scraped st1 \<longrightarrow>
        flow_state (for_cards sc (Some n) ptl cards st1) = st1
        \<and> for_cards sc (Some n) ptl (job_card # cards) st1 = Return st1)
   \<and> (0 < n
        \<and> fetch_page sc current_url 3 (requests st0) = (Inr (Some page), r0)
        \<and> job_cards page = before @ job_card # rest
        \<and> for_cards sc (Some n) ptl before (st0\<lparr>requests := r0\<rparr>) = Continue st1
        \<and> n \<le> jobs_scraped st1
        \<longrightarrow> scrape_pages (Suc fuel) sc (Some n) max_pages ptl current_url current_page st0
              = Some (None, st1))
   \<and> (0 < n
        \<and> fetch_page sc current_url 3 (requests st0) = (Inr (Some page), r0)
        \<and> for_cards sc (Some n) ptl (job_cards page) (st0\<lparr>requests := r0\<rparr>) = Continue st1
        \<and> n \<le> jobs_scraped st1
        \<and> \<not> limit_reached max_pages current_page
        \<and> page_link page (current_page + 1) = Some next_page_url \<and> next_page_url \<noteq> []
        \<longrightarrow> scrape_pages (Suc fuel) sc (Some n) max_pages ptl current_url current_page st0
              = scrape_pages fuel sc (Some n) max_pages ptl next_page_url (current_page + 1) st1)
   \<and> (fetch_page sc search_url 3 reqs = (Inr (Some page), r0)
        \<and> job_cards page = [card1, card2, card3, card4, card5]
        \<and> card_link card1 = Some u1 \<and> card_link card2 = Some u2 \<and> card_link card3 = Some u3
        \<and> detail_attempts sc u1 [0..<3] r0 = (Some j1, r1)
        \<and> detail_attempts sc u2 [0..<3] r1 = (Some j2, r2)
        \<and> detail_attempts sc u3 [0..<3] r2 = (Some j3, r3)
        \<and> \<not> outside_time_limit (posting_time j1) ptl
        \<and> \<not> outside_time_limit (posting_time j2) ptl
        \<and> \<not> outside_time_limit (posting_time j3) ptl
        \<longrightarrow> scrape_jobs (Suc fuel) sc search_url (Some 3) max_pages ptl reqs
              = Some ([j1, j2, j3], r3))"
proof (intro conjI impI)
  assume a: "0 < n \<and> scrape_pages fuel sc (Some n) max_pages ptl search_url 1
        \<lparr>all_jobs_data = [], jobs_scraped = 0, requests = reqs\<rparr> = Some (e, st)"
  have "jobs_scraped st = int (length (all_jobs_data st)) \<and> jobs_scraped st \<le> n"
    by (rule scrape_pages_bound[of n "\<lparr>all_jobs_data = [], jobs_scraped = 0, requests = reqs\<rparr>"
          fuel sc max_pages ptl search_url 1 e st]) (use a in auto)
  then show "jobs_scraped st = int (length (all_jobs_data st))"
    and "int (length (all_jobs_data st)) \<le> n" by auto
next
  assume a: "0 < n \<and> scrape_jobs fuel sc search_url (Some n) max_pages ptl reqs = Some (jobs, reqs')"
  show "int (length jobs) \<le> n"
  proof (cases "scrape_pages fuel sc (Some n) max_pages ptl search_url 1
        \<lparr>all_jobs_data = [], jobs_scraped = 0, requests = reqs\<rparr>")
    case None
    with a show ?thesis by (simp add: scrape_jobs_def)
  next
    case (Some p)
    obtain e st where p: "p = (e, st)" by (cases p)
    have inv: "jobs_scraped st = int (length (all_jobs_data st)) \<and> jobs_scraped st \<le> n"
      by (rule scrape_pages_bound[of n "\<lparr>all_jobs_data = [], jobs_scraped = 0, requests = reqs\<rparr>"
          fuel sc max_pages ptl search_url 1 e st]) (use a Some p in auto)
    show ?thesis
    proof (cases e)
      case None
      with a Some p inv show ?thesis by (auto simp add: scrape_jobs_def)
    next
      case (Some x)
      with a \<open>scrape_pages fuel sc (Some n) max_pages ptl search_url 1
        \<lparr>all_jobs_data = [], jobs_scraped = 0, requests = reqs\<rparr> = Some p\<close> p
      show ?thesis by (auto simp add: scrape_jobs_def)
    qed
  qed
next
  assume a: "0 < n \<and> n \<le> jobs_scraped st1"
  then show "flow_state (for_cards sc (Some n) ptl cards st1) = st1"
    using for_cards_limit_reached[of n st1 sc ptl cards] by simp
  from a have n: "0 < n" "n \<le> jobs_scraped st1" by auto
  show "for_cards sc (Some n) ptl (job_card # cards) st1 = Return st1"
    using for_cards_limit_reached[OF n, of sc ptl "job_card # cards"] by simp
next
  assume a: "0 < n
        \<and> fetch_page sc current_url 3 (requests st0) = (Inr (Some page), r0)
        \<and> job_cards page = before @ job_card # rest
        \<and> for_cards sc (Some n) ptl before (st0\<lparr>requests := r0\<rparr>) = Continue st1
        \<and> n \<le> jobs_scraped st1"
  then have "for_cards sc (Some n) ptl (job_card # rest) st1 = Return st1"
    using for_cards_limit_reached[of n st1 sc ptl "job_card # rest"] by simp
  with a have "for_cards sc (Some n) ptl (job_cards page) (st0\<lparr>requests := r0\<rparr>) = Return st1"
    by (simp add: for_cards_append)
  with a show "scrape_pages (Suc fuel) sc (Some n) max_pages ptl current_url current_page st0
              = Some (None, st1)"
    by simp
next
  assume "0 < n
        \<and> fetch_page sc current_url 3 (requests st0) = (Inr (Some page), r0)
        \<and> for_cards sc (Some n) ptl (job_cards page) (st0\<lparr>requests := r0\<rparr>) = Continue st1
        \<and> n \<le> jobs_scraped st1
        \<and> \<not> limit_reached max_pages current_page
        \<and> page_link page (current_page + 1) = Some next_page_url \<and> next_page_url \<noteq> []"
  then show "scrape_pages (Suc fuel) sc (Some n) max_pages ptl current_url current_page st0
              = scrape_pages fuel sc (Some n) max_pages ptl next_page_url (current_page + 1) st1"
    by simp
next
  assume "fetch_page sc search_url 3 reqs = (Inr (Some page), r0)
        \<and> job_cards page = [card1, card2, card3, card4, card5]
        \<and> card_link card1 = Some u1 \<and> card_link card2 = Some u2 \<and> card_link card3 = Some u3
        \<and> detail_attempts sc u1 [0..<3] r0 = (Some j1, r1)
        \<and> detail_attempts sc u2 [0..<3] r1 = (Some j2, r2)
        \<and> detail_attempts sc u3 [0..<3] r2 = (Some j3, r3)
        \<and> \<not> outside_time_limit (posting_time j1) ptl
        \<and> \<not> outside_time_limit (posting_time j2) ptl
        \<and> \<not> outside_time_limit (posting_time j3) ptl"
  then show "scrape_jobs (Suc fuel) sc search_url (Some 3) max_pages ptl reqs
              = Some ([j1, j2, j3], r3)"
    by (simp add: scrape_jobs_def limit_reached_def)
qed

theorem scrape_jobs_num_jobs_bound_witness:
  "length (fst (the (scrape_jobs 2 board_browser ''https://www.seek.com.au/jobs'' (Some 3)
       None None []))) \<le> 3
   \<and> scrape_jobs 1 board_browser ''https://www.seek.com.au/jobs'' (Some 3) None None []
     = Some ([job_of_page ''https://www.seek.com.au/job/1'' (detail_page ''A job'' ''Posted 3h ago''),
              job_of_page ''https://www.seek.com.au/job/2'' (detail_page ''A job'' ''Posted 3h ago''),
              job_of_page ''https://www.seek.com.au/job/3'' (detail_page ''A job'' ''Posted 2d ago'')],
             [''https://www.seek.com.au/jobs'', ''https://www.seek.com.au/job/1'',
              ''https://www.seek.com.au/job/2'', ''https://www.seek.com.au/job/3''])"
proof -
  let ?jobs = "[job_of_page ''https://www.seek.com.au/job/1'' (detail_page ''A job'' ''Posted 3h ago''),
              job_of_page ''https://www.seek.com.au/job/2'' (detail_page ''A job'' ''Posted 3h ago''),
              job_of_page ''https://www.seek.com.au/job/3'' (detail_page ''A job'' ''Posted 2d ago'')]"
  let ?reqs = "[''https://www.seek.com.au/jobs'', ''https://www.seek.com.au/job/1'',
              ''https://www.seek.com.au/job/2'', ''https://www.seek.com.au/job/3'']"
  have run: "scrape_jobs 2 board_browser ''https://www.seek.com.au/jobs'' (Some 3) None None []
      = Some (?jobs, ?reqs)"
    by (simp add: board_eval scrape_jobs_def outside_time_limit_def numeral_2_eq_2)
  have h: "fetch_page board_browser ''https://www.seek.com.au/jobs'' 3 []
        = (Inr (Some (results_page board_cards
                   (\<lambda>n. if n = 2 then Some ''https://www.seek.com.au/jobs?page=2'' else None))),
           [''https://www.seek.com.au/jobs''])
      \<and> job_cards (results_page board_cards
                   (\<lambda>n. if n = 2 then Some ''https://www.seek.com.au/jobs?page=2'' else None))
        = [board_cards ! 0, board_cards ! 1, board_cards ! 2, board_cards ! 3, board_cards ! 4]
      \<and> card_link (board_cards ! 0) = Some ''https://www.seek.com.au/job/1''
      \<and> card_link (board_cards ! 1) = Some ''https://www.seek.com.au/job/2''
      \<and> card_link (board_cards ! 2) = Some ''https://www.seek.com.au/job/3''
      \<and> detail_attempts board_browser ''https://www.seek.com.au/job/1'' [0..<3]
           [''https://www.seek.com.au/jobs'']
         = (Some (?jobs ! 0), [''https://www.seek.com.au/jobs'', ''https://www.seek.com.au/job/1''])
      \<and> detail_attempts board_browser ''https://www.seek.com.au/job/2'' [0..<3]
           [''https://www.seek.com.au/jobs'', ''https://www.seek.com.au/job/1'']
         = (Some (?jobs ! 1), [''https://www.seek.com.au/jobs'', ''https://www.seek.com.au/job/1'',
              ''https://www.seek.com.au/job/2''])
      \<and> detail_attempts board_browser ''https://www.seek.com.au/job/3'' [0..<3]
           [''https://www.seek.com.au/jobs'', ''https://www.seek.com.au/job/1'',
              ''https://www.seek.com.au/job/2'']
         = (Some (?jobs ! 2), ?reqs)
      \<and> \<not> outside_time_limit (posting_time (?jobs ! 0)) None
      \<and> \<not> outside_time_limit (posting_time (?jobs ! 1)) None
      \<and> \<not> outside_time_limit (posting_time (?jobs ! 2)) None"
    by (simp add: board_eval outside_time_limit_def detail_page_def)
  have a: "length (fst (the (scrape_jobs 2 board_browser ''https://www.seek.com.au/jobs'' (Some 3)
       None None []))) \<le> 3"
    using scrape_jobs_num_jobs_bound [of 3 2 board_browser None None "''https://www.seek.com.au/jobs''" "[]" _ _
        ?jobs ?reqs, THEN conjunct2, THEN conjunct1] run by simp
  have b: "scrape_jobs 1 board_browser ''https://www.seek.com.au/jobs'' (Some 3) None None []
     = Some (?jobs, ?reqs)"
    using scrape_jobs_num_jobs_bound [THEN conjunct2, THEN conjunct2, THEN conjunct2,
        THEN conjunct2, THEN conjunct2, THEN mp, OF h, of 0 None] by simp
  from a b show ?thesis by blast
qed

section \<open>A job older than the limit\<close>




text \<open>Scenario C of the specification, on the job board.\<close>

lemma scenario_c:
  "scrape_jobs 1 board_browser ''https://www.seek.com.au/jobs'' None None (Some ''1d'') []
     = Some ([job_of_page ''https://www.seek.com.au/job/1'' (detail_page ''A job'' ''Posted 3h ago''),
              job_of_page ''https://www.seek.com.au/job/2'' (detail_page ''A job'' ''Posted 3h ago'')],
             [''https://www.seek.com.au/jobs'', ''https://www.seek.com.au/job/1'',
              ''https://www.seek.com.au/job/2'', ''https://www.seek.com.au/job/3''])"
proof -
  have p1: "posting_time (job_of_page u (detail_page t ''Posted 3h ago'')) = ''Posted 3h ago''" for u t
    by (simp add: job_of_page_def detail_page_def blank_page_def strip_def isspace_def Let_def)
  have p2: "posting_time (job_of_page u (detail_page t ''Posted 2d ago'')) = ''Posted 2d ago''" for u t
    by (simp add: job_of_page_def detail_page_def blank_page_def strip_def isspace_def Let_def)
  have a: "convert_to_days ''Posted 3h ago'' = Finite (1 / 8)" by (rule convert_to_days_values(4))
  have b: "convert_to_days ''1d'' = Finite 1" by (rule convert_to_days_values(1))
  have c: "convert_to_days ''Posted 2d ago'' = Finite 2" by (rule convert_to_days_values(3))
  show ?thesis
    by (simp add: board_eval scrape_jobs_def outside_time_limit_def is_within_time_limit_def
        p1 p2 a b c)
qed



section \<open>The title filter (v4)\<close>

lemma isupper_bit6: "isupper (Char b0 b1 b2 b3 b4 b5 b6 b7) \<Longrightarrow> b6"
  by (cases b6) (auto simp add: isupper_def Let_def of_bool_def split: if_splits)

lemma isspace_bit6: "isspace (Char b0 b1 b2 b3 b4 b5 True b7) = False"
  by (auto simp add: isspace_def of_bool_def split: if_splits)

lemma isspace_lower_char: "isspace (lower_char c) = isspace c"
proof (cases "isupper c")
  case False
  then show ?thesis by (simp add: lower_char_def)
next
  case True
  obtain b0 b1 b2 b3 b4 b5 b6 b7 where c: "c = Char b0 b1 b2 b3 b4 b5 b6 b7" by (cases c)
  with True have "b6" using isupper_bit6 by blast
  with True c show ?thesis by (simp add: lower_char_def isspace_bit6)
qed

lemma split_acc_lower:
  "split_acc (map lower_char cur) (map lower_char s) = map (map lower_char) (split_acc cur s)"
proof (induction s arbitrary: cur)
  case Nil
  show ?case by simp
next
  case (Cons c cs)
  have a: "split_acc [] (map lower_char cs) = map (map lower_char) (split_acc [] cs)"
    using Cons[of "[]"] by simp
  have b: "split_acc (map lower_char cur @ [lower_char c]) (map lower_char cs)
      = map (map lower_char) (split_acc (cur @ [c]) cs)"
    using Cons[of "cur @ [c]"] by simp
  show ?case by (simp add: isspace_lower_char a b)
qed

lemma split_lower: "split (lower s) = map lower (split s)"
proof -
  have "split_acc [] (map lower_char s) = map (map lower_char) (split_acc [] s)"
    using split_acc_lower[of "[]" s] by simp
  then show ?thesis by (simp add: split_def lower_def)
qed

lemma filter_iff:
  "words \<noteq> [] \<Longrightarrow> job_title_conditional_filter title (Some words)
     = (\<forall>w\<in>set (split words). py_in (lower w) (lower title))"
  by (simp add: job_title_conditional_filter_def split_lower list_all_iff)

lemmas filter_eval =
  job_title_conditional_filter_def split_def lower_def lower_char_def isupper_def isspace_def
  strip_def

text \<open>What \<open>split\<close> does with a word, and with a run of white space.\<close>

lemma split_acc_word:
  "\<forall>c\<in>set w. \<not> isspace c \<Longrightarrow> split_acc cur (w @ rest) = split_acc (cur @ w) rest"
  by (induction w arbitrary: cur) auto

lemma split_acc_spaces:
  "sp \<noteq> [] \<Longrightarrow> \<forall>c\<in>set sp. isspace c \<Longrightarrow>
     split_acc cur (sp @ rest) = (if cur = [] then split_acc [] rest else cur # split_acc [] rest)"
proof (induction sp arbitrary: cur)
  case Nil
  then show ?case by simp
next
  case (Cons c sp)
  show ?case
  proof (cases "sp = []")
    case True
    with Cons.prems show ?thesis by simp
  next
    case False
    with Cons.prems have "split_acc [] (sp @ rest) = split_acc [] rest"
      using Cons.IH[of "[]"] by simp
    with Cons.prems show ?thesis by simp
  qed
qed

lemma split_word:
  assumes "w \<noteq> []" "\<forall>c\<in>set w. \<not> isspace c" "sp \<noteq> []" "\<forall>c\<in>set sp. isspace c"
  shows "split (w @ sp @ rest) = w # split rest"
  using assms by (simp add: split_def split_acc_word split_acc_spaces)

lemma split_spaces:
  assumes "\<forall>c\<in>set sp. isspace c"
  shows "split (sp @ rest) = split rest"
proof (cases "sp = []")
  case True
  then show ?thesis by simp
next
  case False
  with assms show ?thesis by (simp add: split_def split_acc_spaces)
qed

lemma split_single:
  assumes "w \<noteq> []" "\<forall>c\<in>set w. \<not> isspace c"
  shows "split w = [w]"
  using assms split_acc_word[of w "[]" "[]"] by (simp add: split_def)

lemma filter_two_words:
  assumes "a \<noteq> []" "\<forall>c\<in>set a. \<not> isspace c" "b \<noteq> []" "\<forall>c\<in>set b. \<not> isspace c"
    and "sp \<noteq> []" "\<forall>c\<in>set sp. isspace c"
  shows "job_title_conditional_filter title (Some (a @ sp @ b))
     = (py_in (lower a) (lower title) \<and> py_in (lower b) (lower title))"
proof -
  have "split (a @ sp @ b) = a # split b" using assms by (intro split_word) auto
  also have "split b = [b]" using assms by (intro split_single) auto
  finally have "split (a @ sp @ b) = [a, b]" .
  moreover have "a @ sp @ b \<noteq> []" using assms(1) by simp
  ultimately show ?thesis by (simp add: filter_iff)
qed

text \<open>
  C9.  With a filter that is not empty, the filter accepts a title if and only if every
  word of the filter occurs, lower-cased, in the lower-cased title.  The words are what
  \<open>split\<close> gives: a word followed by white space is the first word and the rest is split
  in turn, leading white space is dropped, and a string without white space is one
  word.  So a filter of two words accepts a title if and only if both occur in it, in
  either order and wherever they stand, and swapping the two words changes nothing.
  A card whose title fails the filter is passed over with the state unchanged, so nothing
  is requested for it; a card whose title passes, that has a link, gives details and is
  within the time limit, is added.  With the filter \<open>data analyst\<close>,
  \<open>Senior Data Engineer\<close> fails, \<open>Data Analyst, Remote\<close> passes and so does
  \<open>Analyst (Data)\<close>; the filter \<open>ANALYST\<close>, two blanks, \<open>data\<close> accepts the same titles.
\<close>

theorem title_filter_before_detail_fetch:
  "(words \<noteq> [] \<longrightarrow>
      job_title_conditional_filter title (Some words)
        = (\<forall>w\<in>set (split words). py_in (lower w) (lower title)))
   \<and> (w \<noteq> [] \<and> (\<forall>c\<in>set w. \<not> isspace c) \<and> sp \<noteq> [] \<and> (\<forall>c\<in>set sp. isspace c) \<longrightarrow>
      split (w @ sp @ tail) = w # split tail \<and> split (sp @ tail) = split tail \<and> split w = [w])
   \<and> (a \<noteq> [] \<and> (\<forall>c\<in>set a. \<not> isspace c) \<and> b \<noteq> [] \<and> (\<forall>c\<in>set b. \<not> isspace c)
      \<and> sp \<noteq> [] \<and> (\<forall>c\<in>set sp. isspace c) \<longrightarrow>
      job_title_conditional_filter title (Some (a @ sp @ b))
        = (py_in (lower a) (lower title) \<and> py_in (lower b) (lower title))
      \<and> job_title_conditional_filter title (Some (b @ sp @ a))
        = job_title_conditional_filter title (Some (a @ sp @ b)))
   \<and> (card_title job_card = Some title_text
      \<and> \<not> job_title_conditional_filter (strip title_text) job_title_filter
      \<and> \<not> limit_reached num_jobs (jobs_scraped st)
      \<longrightarrow> for_cards_v4 sc num_jobs ptl job_title_filter (job_card # cards) st
            = for_cards_v4 sc num_jobs ptl job_title_filter cards st)
   \<and> (card_title job_card = Some title_text
      \<and> job_title_conditional_filter (strip title_text) job_title_filter
      \<and> \<not> limit_reached num_jobs (jobs_scraped st)
      \<and> card_link job_card = Some job_url
      \<and> detail_attempts_v4 sc job_url [0..<3] (requests st) = (Some job_details, r)
      \<and> map_of job_details ''posting_time'' = Some posting
      \<and> \<not> outside_time_limit_v4 posting ptl
      \<longrightarrow> for_cards_v4 sc num_jobs ptl job_title_filter (job_card # cards) st
            = for_cards_v4 sc num_jobs ptl job_title_filter cards
                (st\<lparr>all_jobs_data := all_jobs_data st @ [job_details],
                    jobs_scraped := jobs_scraped st + 1, requests := r\<rparr>))
   \<and> \<not> job_title_conditional_filter ''Senior Data Engineer'' (Some ''data analyst'')
   \<and> job_title_conditional_filter ''Data Analyst, Remote'' (Some ''data analyst'')
   \<and> job_title_conditional_filter ''Analyst (Data)'' (Some ''data analyst'')
   \<and> \<not> job_title_conditional_filter ''Senior Data Engineer'' (Some ''ANALYST  data'')
   \<and> job_title_conditional_filter ''Data Analyst, Remote'' (Some ''ANALYST  data'')
   \<and> job_title_conditional_filter ''Analyst (Data)'' (Some ''ANALYST  data'')"
proof (intro conjI impI)
  assume "words \<noteq> []"
  then show "job_title_conditional_filter title (Some words)
        = (\<forall>w\<in>set (split words). py_in (lower w) (lower title))"
    by (rule filter_iff)
next
  assume a: "w \<noteq> [] \<and> (\<forall>c\<in>set w. \<not> isspace c) \<and> sp \<noteq> [] \<and> (\<forall>c\<in>set sp. isspace c)"
  then show "split (w @ sp @ tail) = w # split tail" by (intro split_word) auto
  from a show "split (sp @ tail) = split tail" by (intro split_spaces) auto
  from a show "split w = [w]" by (intro split_single) auto
next
  assume a: "a \<noteq> [] \<and> (\<forall>c\<in>set a. \<not> isspace c) \<and> b \<noteq> [] \<and> (\<forall>c\<in>set b. \<not> isspace c)
      \<and> sp \<noteq> [] \<and> (\<forall>c\<in>set sp. isspace c)"
  then have ab: "job_title_conditional_filter title (Some (a @ sp @ b))
        = (py_in (lower a) (lower title) \<and> py_in (lower b) (lower title))"
    by (intro filter_two_words) auto
  from a have ba: "job_title_conditional_filter title (Some (b @ sp @ a))
        = (py_in (lower b) (lower title) \<and> py_in (lower a) (lower title))"
    by (intro filter_two_words) auto
  show "job_title_conditional_filter title (Some (a @ sp @ b))
        = (py_in (lower a) (lower title) \<and> py_in (lower b) (lower title))"
    by (rule ab)
  show "job_title_conditional_filter title (Some (b @ sp @ a))
        = job_title_conditional_filter title (Some (a @ sp @ b))"
    unfolding ab ba by blast
next
  show "\<not> job_title_conditional_filter ''Senior Data Engineer'' (Some ''data analyst'')"
    by (simp add: filter_eval)
next
  show "job_title_conditional_filter ''Data Analyst, Remote'' (Some ''data analyst'')"
    by (simp add: filter_eval)
next
  show "job_title_conditional_filter ''Analyst (Data)'' (Some ''data analyst'')"
    by (simp add: filter_eval)
next
  show "\<not> job_title_conditional_filter ''Senior Data Engineer'' (Some ''ANALYST  data'')"
    by (simp add: filter_eval)
next
  show "job_title_conditional_filter ''Data Analyst, Remote'' (Some ''ANALYST  data'')"
    by (simp add: filter_eval)
next
  show "job_title_conditional_filter ''Analyst (Data)'' (Some ''ANALYST  data'')"
    by (simp add: filter_eval)
qed simp_all

lemmas board_eval_v4 =
  range_3 fetch_page_v4_def extract_job_details_v4_def limit_reached_def
  results_page_def link_card_def blank_page_def board_cards_def board_document_def
  board_browser_def board_session_def

text \<open>
  The witness: the first page of the job board under the filter \<open>ANALYST\<close>, two blanks,
  \<open>data\<close>.  The first card is passed over, the second and the third are fetched and
  added, the last two are passed over; the two words of the filter are found by the
  theorem's account of \<open>split\<close>.
\<close>

theorem title_filter_before_detail_fetch_witness:
  "split ''ANALYST  data'' = [''ANALYST'', ''data'']
   \<and> scrape_jobs_v4 1 board_session ''https://www.seek.com.au/jobs'' None (Some 1) None
       (Some ''ANALYST  data'') []
     = Some ([job_of_page_v4 ''https://www.seek.com.au/job/2'' (detail_page ''A job'' ''Posted 3h ago''),
              job_of_page_v4 ''https://www.seek.com.au/job/3'' (detail_page ''A job'' ''Posted 2d ago'')],
             [''https://www.seek.com.au/jobs'', ''https://www.seek.com.au/job/2'',
              ''https://www.seek.com.au/job/3''])"
proof -
  let ?f = "Some ''ANALYST  data''"
  let ?st = "\<lparr>all_jobs_data = [], jobs_scraped = 0, requests = [''https://www.seek.com.au/jobs'']\<rparr>
      :: job_v4 scrape_state"
  let ?j2 = "job_of_page_v4 ''https://www.seek.com.au/job/2'' (detail_page ''A job'' ''Posted 3h ago'')"
  let ?j3 = "job_of_page_v4 ''https://www.seek.com.au/job/3'' (detail_page ''A job'' ''Posted 2d ago'')"
  let ?st2 = "?st\<lparr>all_jobs_data := all_jobs_data ?st @ [?j2],
               jobs_scraped := jobs_scraped ?st + 1,
               requests := [''https://www.seek.com.au/jobs'', ''https://www.seek.com.au/job/2'']\<rparr>"
  have w: "''ANALYST'' \<noteq> [] \<and> (\<forall>c\<in>set ''ANALYST''. \<not> isspace c) \<and> ''  '' \<noteq> []
      \<and> (\<forall>c\<in>set ''  ''. isspace c)"
    by (simp add: isspace_def)
  have d: "''data'' \<noteq> [] \<and> (\<forall>c\<in>set ''data''. \<not> isspace c) \<and> ''  '' \<noteq> []
      \<and> (\<forall>c\<in>set ''  ''. isspace c)"
    by (simp add: isspace_def)
  note sw = title_filter_before_detail_fetch [THEN conjunct2, THEN conjunct1, THEN mp, OF w]
  note sd = title_filter_before_detail_fetch [THEN conjunct2, THEN conjunct1, THEN mp, OF d]
  have sp1: "split (''ANALYST'' @ ''  '' @ ''data'') = ''ANALYST'' # split ''data''"
    by (rule sw [THEN conjunct1])
  have sp2: "split ''data'' = [''data'']"
    by (rule sd [THEN conjunct2, THEN conjunct2])
  have sp: "split ''ANALYST  data'' = [''ANALYST'', ''data'']"
    using sp1 sp2 by simp
  have h1: "card_title (board_cards ! 0) = Some ''Senior Data Engineer''
      \<and> \<not> job_title_conditional_filter (strip ''Senior Data Engineer'') ?f
      \<and> \<not> limit_reached None (jobs_scraped ?st)"
    by (simp add: board_cards_def link_card_def limit_reached_def filter_eval)
  have s1: "for_cards_v4 board_session None None ?f (board_cards ! 0 # tl board_cards) ?st
      = for_cards_v4 board_session None None ?f (tl board_cards) ?st"
    by (rule title_filter_before_detail_fetch [THEN conjunct2, THEN conjunct2, THEN conjunct2,
          THEN conjunct1, THEN mp, OF h1])
  have h2: "card_title (board_cards ! 1) = Some ''Data Analyst, Remote''
      \<and> job_title_conditional_filter (strip ''Data Analyst, Remote'') ?f
      \<and> \<not> limit_reached None (jobs_scraped ?st)
      \<and> card_link (board_cards ! 1) = Some ''https://www.seek.com.au/job/2''
      \<and> detail_attempts_v4 board_session ''https://www.seek.com.au/job/2'' [0..<3] (requests ?st)
          = (Some ?j2, [''https://www.seek.com.au/jobs'', ''https://www.seek.com.au/job/2''])
      \<and> map_of ?j2 ''posting_time'' = Some ''Posted 3h ago''
      \<and> \<not> outside_time_limit_v4 ''Posted 3h ago'' None"
    by (simp add: board_eval_v4 filter_eval outside_time_limit_v4_def job_of_page_v4_def
        detail_page_def)
  have s2: "for_cards_v4 board_session None None ?f (board_cards ! 1 # drop 2 board_cards) ?st
      = for_cards_v4 board_session None None ?f (drop 2 board_cards) ?st2"
    by (rule title_filter_before_detail_fetch [THEN conjunct2, THEN conjunct2, THEN conjunct2,
          THEN conjunct2, THEN conjunct1, THEN mp, OF h2])
  have h3: "card_title (board_cards ! 2) = Some ''Analyst (Data)''
      \<and> job_title_conditional_filter (strip ''Analyst (Data)'') ?f
      \<and> \<not> limit_reached None (jobs_scraped ?st2)
      \<and> card_link (board_cards ! 2) = Some ''https://www.seek.com.au/job/3''
      \<and> detail_attempts_v4 board_session ''https://www.seek.com.au/job/3'' [0..<3] (requests ?st2)
          = (Some ?j3, [''https://www.seek.com.au/jobs'', ''https://www.seek.com.au/job/2'',
              ''https://www.seek.com.au/job/3''])
      \<and> map_of ?j3 ''posting_time'' = Some ''Posted 2d ago''
      \<and> \<not> outside_time_limit_v4 ''Posted 2d ago'' None"
    by (simp add: board_eval_v4 filter_eval outside_time_limit_v4_def job_of_page_v4_def
        detail_page_def)
  have s3: "for_cards_v4 board_session None None ?f (board_cards ! 2 # drop 3 board_cards) ?st2
      = for_cards_v4 board_session None None ?f (drop 3 board_cards)
          (?st2\<lparr>all_jobs_data := all_jobs_data ?st2 @ [?j3],
               jobs_scraped := jobs_scraped ?st2 + 1,
               requests := [''https://www.seek.com.au/jobs'', ''https://www.seek.com.au/job/2'',
                 ''https://www.seek.com.au/job/3'']\<rparr>)"
    by (rule title_filter_before_detail_fetch [THEN conjunct2, THEN conjunct2, THEN conjunct2,
          THEN conjunct2, THEN conjunct1, THEN mp, OF h3])
  have cards: "board_cards = board_cards ! 0 # tl board_cards"
    "tl board_cards = board_cards ! 1 # drop 2 board_cards"
    "drop 2 board_cards = board_cards ! 2 # drop 3 board_cards"
    by (simp_all add: board_cards_def)
  have rest: "for_cards_v4 board_session None None ?f (drop 3 board_cards) st = Continue st" for st
    by (simp add: board_cards_def link_card_def limit_reached_def filter_eval)
  have loop: "for_cards_v4 board_session None None ?f board_cards ?st
      = Continue \<lparr>all_jobs_data = [?j2, ?j3], jobs_scraped = 2,
          requests = [''https://www.seek.com.au/jobs'', ''https://www.seek.com.au/job/2'',
            ''https://www.seek.com.au/job/3'']\<rparr>"
    by (subst cards(1), subst s1, subst cards(2), subst s2, subst cards(3), subst s3, subst rest)
       simp
  have page: "fetch_page_v4 board_session ''https://www.seek.com.au/jobs'' 3 []
      = (Inr (Some (results_page board_cards
                   (\<lambda>n. if n = 2 then Some ''https://www.seek.com.au/jobs?page=2'' else None))),
         [''https://www.seek.com.au/jobs''])"
    by (simp add: range_3 fetch_page_v4_def board_session_def board_browser_def
        board_document_def)
  have jc: "job_cards (results_page cs l) = cs" "page_link (results_page cs l) = l" for cs l
    by (simp_all add: results_page_def blank_page_def)
  have run: "scrape_jobs_v4 1 board_session ''https://www.seek.com.au/jobs'' None (Some 1) None
       ?f [] = Some ([?j2, ?j3], [''https://www.seek.com.au/jobs'',
         ''https://www.seek.com.au/job/2'', ''https://www.seek.com.au/job/3''])"
    by (simp add: scrape_jobs_v4_def page jc loop limit_reached_def del: for_cards_v4.simps)
  from sp run show ?thesis by (rule conjI)
qed

end
